theory Spec2Isabelle
  imports Main "HOL-Library.Extended_Nat"
begin

section \<open>Full-page screenshot capture of the Web2PG extension\<close>

text \<open>
  The development embeds the capture pipeline of
  \<^verbatim>\<open>extension/background/service-worker.js\<close> and the tile compositor of
  \<^verbatim>\<open>extension/offscreen/offscreen.js\<close>.

  Conventions of the embedding.
  \<^item> Pixel quantities (heights, widths, scroll offsets) are natural numbers; JavaScript's
    doubles are exact on them.
  \<^item> A rejected promise or a thrown \<^verbatim>\<open>Error\<close> is \<open>Inl message\<close>, a
    fulfilled one is \<open>Inr value\<close>.
  \<^item> The browser is a \<open>host\<close>: for each API the answer it gives to the \<open>k\<close>-th call.
  \<^item> Everything the worker does to the browser is appended to the \<open>trace\<close> of the
    \<open>world\<close>, which also holds the page and the two module-level flags.
  \<^item> An \<^verbatim>\<open>await\<close> that never settles is the value \<open>None\<close>.
\<close>

subsection \<open>Data\<close>

type_synonym dataUrl = string
type_synonym message = string

text \<open>The fields \<^verbatim>\<open>getPageDimensions\<close> reads from the document and the window.\<close>

record page =
  body_scrollHeight :: nat
  body_offsetHeight :: nat
  html_clientHeight :: nat
  html_scrollHeight :: nat
  html_offsetHeight :: nat
  innerWidth :: nat
  innerHeight :: nat
  window_scrollY :: nat

record dimensions =
  fullHeight :: nat
  viewportWidth :: nat
  viewportHeight :: nat
  scrollY :: nat

text \<open>
  One entry of the \<^verbatim>\<open>screenshots\<close> array. The variable \<^verbatim>\<open>dataUrl\<close> is
  declared without a value, so the field is optional: \<open>None\<close> is \<^verbatim>\<open>undefined\<close>.
\<close>

record screenshot =
  shot_dataUrl :: "dataUrl option"
  shot_index :: nat
  shot_scrollY :: nat

text \<open>What the worker asks of the browser, in the order it asks.\<close>

datatype event =
    ExecProbe
  | ExecScroll nat
  | Sleep nat
  | CaptureVisibleTab
  | GetContexts
  | CreateDocument
  | SendStitch

text \<open>
  The answer to \<^verbatim>\<open>chrome.scripting.executeScript\<close>: the promise rejects, or it is
  fulfilled without an injection result (the function ran in no frame), or the function
  ran in the page.
\<close>

datatype injection = Rejected message | NoResult | Ran

text \<open>
  The answer to \<^verbatim>\<open>chrome.runtime.sendMessage\<close> for the stitch request: the promise
  rejects, or is fulfilled with \<^verbatim>\<open>undefined\<close>, or the offscreen listener receives
  the request.
\<close>

datatype delivery = Undeliverable message | NoResponse | Delivered

text \<open>The canvas of the offscreen document: its size and the \<^verbatim>\<open>drawImage\<close> calls made.\<close>

record drawop =
  tile :: nat
  dy :: nat
  dWidth :: nat
  dHeight :: nat

record canvas =
  cv_width :: nat
  cv_height :: nat
  draws :: "drawop list"

record host =
  executeScript :: "nat \<Rightarrow> injection"
  captureVisibleTab :: "nat \<Rightarrow> nat \<times> (message + dataUrl)"
  getContexts :: "nat \<Rightarrow> message + nat"
  createDocument :: "nat \<Rightarrow> message option"
  sendMessage :: "nat \<Rightarrow> delivery"
  image_height :: "dataUrl \<Rightarrow> nat option"
  load_order :: "nat list"
  toDataURL :: "canvas \<Rightarrow> message + dataUrl"
  cancel_signal :: "nat \<Rightarrow> bool"

text \<open>
  \<^item> \<open>captureVisibleTab h k\<close> is the time in milliseconds after which the \<open>k\<close>-th capture
    settles, and how.
  \<^item> \<open>getContexts h k\<close> is the number of existing offscreen contexts, \<open>createDocument h k\<close>
    is \<open>None\<close> on success.
  \<^item> \<open>image_height h u\<close> is the height of the image that \<open>u\<close> decodes to, \<open>None\<close> when it
    does not decode; \<open>load_order h\<close> is the order in which the images of one stitch
    request fire their \<^verbatim>\<open>onload\<close> or \<^verbatim>\<open>onerror\<close> event, by tile index.
  \<^item> \<open>cancel_signal h k\<close> says whether some external party has asked for cancellation by
    the time of the \<open>k\<close>-th capture. No function of the worker takes such a signal.
\<close>

record world =
  page :: page
  trace :: "event list"
  offscreenDocumentCreating :: bool
  offscreenDocumentCreated :: bool

subsection \<open>Browser primitives\<close>

definition emit :: "event \<Rightarrow> world \<Rightarrow> world" where
  "emit e w = w\<lparr>trace := trace w @ [e]\<rparr>"

fun is_exec :: "event \<Rightarrow> bool" where
  "is_exec ExecProbe = True"
| "is_exec (ExecScroll y) = True"
| "is_exec e = False"

fun is_capture :: "event \<Rightarrow> bool" where
  "is_capture CaptureVisibleTab = True"
| "is_capture e = False"

fun is_getContexts :: "event \<Rightarrow> bool" where
  "is_getContexts GetContexts = True"
| "is_getContexts e = False"

fun is_create :: "event \<Rightarrow> bool" where
  "is_create CreateDocument = True"
| "is_create e = False"

fun is_send :: "event \<Rightarrow> bool" where
  "is_send SendStitch = True"
| "is_send e = False"

definition calls :: "(event \<Rightarrow> bool) \<Rightarrow> world \<Rightarrow> nat" where
  "calls p w = length (filter p (trace w))"

text \<open>The offsets requested of \<^verbatim>\<open>scrollToPosition\<close>, oldest first.\<close>

fun scroll_targets :: "event list \<Rightarrow> nat list" where
  "scroll_targets [] = []"
| "scroll_targets (ExecScroll y # es) = y # scroll_targets es"
| "scroll_targets (e # es) = scroll_targets es"

text \<open>The waits, oldest first.\<close>

fun sleeps :: "event list \<Rightarrow> nat list" where
  "sleeps [] = []"
| "sleeps (Sleep ms # es) = ms # sleeps es"
| "sleeps (e # es) = sleeps es"

definition getPageDimensions :: "page \<Rightarrow> dimensions" where
  "getPageDimensions p =
     \<lparr>fullHeight = max (body_scrollHeight p) (max (body_offsetHeight p)
                      (max (html_clientHeight p) (max (html_scrollHeight p) (html_offsetHeight p)))),
      viewportWidth = innerWidth p,
      viewportHeight = innerHeight p,
      scrollY = window_scrollY p\<rparr>"

definition scrollToPosition :: "nat \<Rightarrow> page \<Rightarrow> page" where
  "scrollToPosition y p = p\<lparr>window_scrollY := y\<rparr>"

text \<open>\<^verbatim>\<open>executeScript({func: getPageDimensions})\<close> and the checks on its result.\<close>

definition exec_probe :: "host \<Rightarrow> world \<Rightarrow> (message + dimensions option) \<times> world" where
  "exec_probe h w =
     (let w' = emit ExecProbe w in
      case executeScript h (calls is_exec w) of
        Rejected e \<Rightarrow> (Inl e, w')
      | NoResult \<Rightarrow> (Inr None, w')
      | Ran \<Rightarrow> (Inr (Some (getPageDimensions (page w))), w'))"

text \<open>\<^verbatim>\<open>executeScript({func: scrollToPosition, args: [y]})\<close>; its result is not read.\<close>

definition exec_scroll :: "host \<Rightarrow> nat \<Rightarrow> world \<Rightarrow> (message + unit) \<times> world" where
  "exec_scroll h y w =
     (let w' = emit (ExecScroll y) w in
      case executeScript h (calls is_exec w) of
        Rejected e \<Rightarrow> (Inl e, w')
      | NoResult \<Rightarrow> (Inr (), w')
      | Ran \<Rightarrow> (Inr (), w'\<lparr>page := scrollToPosition y (page w')\<rparr>))"

definition sleep :: "nat \<Rightarrow> world \<Rightarrow> world" where
  "sleep ms w = emit (Sleep ms) w"

text \<open>The world after further events.\<close>

definition then_events :: "world \<Rightarrow> event list \<Rightarrow> world" where
  "then_events w es = w\<lparr>trace := trace w @ es\<rparr>"

definition capture :: "host \<Rightarrow> world \<Rightarrow> (nat \<times> (message + dataUrl)) \<times> world" where
  "capture h w = (captureVisibleTab h (calls is_capture w), emit CaptureVisibleTab w)"

subsection \<open>Single capture\<close>

text \<open>
  \<^verbatim>\<open>captureSingleScreenshot\<close> races the capture against a timer of 5000 ms that rejects
  with \<^verbatim>\<open>Screenshot timeout\<close>.
\<close>

definition captureSingleScreenshot :: "host \<Rightarrow> world \<Rightarrow> (message + dataUrl) \<times> world" where
  "captureSingleScreenshot h w =
     (case capture h w of
        ((t, r), w') \<Rightarrow> (if t < 5000 then r else Inl ''Screenshot timeout'', w'))"

subsection \<open>The retry loop of one tile\<close>

definition maxRetries :: nat where
  "maxRetries = 3"

definition waitTime :: "nat \<Rightarrow> nat" where
  "waitTime retries = min (1000 * 2 ^ (retries - 1)) 3000"

text \<open>
  Lines 204 to 228: \<^verbatim>\<open>while (retries < maxRetries)\<close> with \<^verbatim>\<open>break\<close> on success,
  \<^verbatim>\<open>throw\<close> once \<^verbatim>\<open>retries >= maxRetries\<close>, and a wait before the next attempt.
  The result \<open>Inr None\<close> is the loop left by its guard, \<^verbatim>\<open>dataUrl\<close> still undefined.
\<close>

function capture_retry :: "host \<Rightarrow> nat \<Rightarrow> world \<Rightarrow> (message + dataUrl option) \<times> world" where
  "capture_retry h retries w =
     (if retries < maxRetries then
        (case capture h w of
           ((t, Inr url), w1) \<Rightarrow> (Inr (Some url), w1)
         | ((t, Inl captureError), w1) \<Rightarrow>
             (if retries + 1 \<ge> maxRetries then (Inl captureError, w1)
              else capture_retry h (retries + 1) (sleep (waitTime (retries + 1)) w1)))
      else (Inr None, w))"
  by pat_completeness auto
termination
  by (relation "measure (\<lambda>(h, retries, w). maxRetries - retries)") (auto simp: maxRetries_def)

declare capture_retry.simps [simp del]

subsection \<open>The capture loop\<close>

text \<open>
  \<^verbatim>\<open>Math.ceil(fullHeight / viewportHeight)\<close>. Division by zero gives
  \<^verbatim>\<open>Infinity\<close>, and \<^verbatim>\<open>0 / 0\<close> gives \<^verbatim>\<open>NaN\<close>, below which no index
  is: for the guards of the loop it behaves as \<open>0\<close>.
\<close>

definition numScreenshots :: "nat \<Rightarrow> nat \<Rightarrow> enat" where
  "numScreenshots fh vh =
     (if vh = 0 then (if fh = 0 then 0 else \<infinity>)
      else enat ((fh + vh - 1) div vh))"

text \<open>
  Lines 190 to 244, one call per evaluation of the guard \<^verbatim>\<open>i < numScreenshots\<close>.
  The result is \<open>Inl\<close> when a statement of the body throws, \<open>Inr\<close> with the array when
  the guard fails, and \<open>None\<close> when the loop runs for ever.
\<close>

partial_function (option) capture_loop ::
  "host \<Rightarrow> enat \<Rightarrow> nat \<Rightarrow> nat \<Rightarrow> screenshot list \<Rightarrow> world
     \<Rightarrow> ((message + screenshot list) \<times> world) option" where
  "capture_loop h n vh i screenshots w =
     (if enat i < n then
        (let targetScrollY = i * vh in
         case exec_scroll h targetScrollY w of
           (Inl e, w1) \<Rightarrow> Some (Inl e, w1)
         | (Inr u, w1) \<Rightarrow>
             (case capture_retry h 0 (sleep 500 w1) of
                (Inl e, w2) \<Rightarrow> Some (Inl e, w2)
              | (Inr dataUrl, w2) \<Rightarrow>
                  capture_loop h n vh (i + 1)
                    (screenshots @
                       [\<lparr>shot_dataUrl = dataUrl, shot_index = i, shot_scrollY = targetScrollY\<rparr>])
                    (if enat i < n - 1 then sleep 1100 w2 else w2)))
      else Some (Inr screenshots, w))"

subsection \<open>The compositor resource: \<^verbatim>\<open>ensureOffscreenDocument\<close>\<close>

text \<open>
  The function is a coroutine: it runs until its next \<^verbatim>\<open>await\<close> and is resumed when
  the awaited promise settles. A program counter names the \<^verbatim>\<open>await\<close> at which a call
  is suspended; \<open>ensure_step\<close> runs one call from its program counter to its next
  suspension, on the flags shared by all calls.
\<close>

datatype pc =
    Entry
  | Polling nat
  | AwaitContexts nat
  | AwaitCreate nat
  | Returned
  | Thrown message

text \<open>\<^verbatim>\<open>String.prototype.includes\<close>.\<close>

fun starts_with :: "string \<Rightarrow> string \<Rightarrow> bool" where
  "starts_with s [] = True"
| "starts_with [] (c # cs) = False"
| "starts_with (x # xs) (c # cs) = (x = c \<and> starts_with xs cs)"

fun js_includes :: "string \<Rightarrow> string \<Rightarrow> bool" where
  "js_includes [] sub = (sub = [])"
| "js_includes (x # xs) sub = (starts_with (x # xs) sub \<or> js_includes xs sub)"

text \<open>The \<^verbatim>\<open>catch\<close> block of lines 356 to 364, followed by the \<^verbatim>\<open>finally\<close>.\<close>

definition ensure_catch :: "message \<Rightarrow> world \<Rightarrow> pc \<times> world" where
  "ensure_catch e w =
     (if e \<noteq> [] \<and> js_includes e ''already exists''
      then (Returned, w\<lparr>offscreenDocumentCreated := True, offscreenDocumentCreating := False\<rparr>)
      else (Thrown e, w\<lparr>offscreenDocumentCreating := False\<rparr>))"

fun ensure_step :: "host \<Rightarrow> pc \<Rightarrow> world \<Rightarrow> pc \<times> world" where
  "ensure_step h Entry w =
     (if offscreenDocumentCreated w then (Returned, w)
      else if offscreenDocumentCreating w then (Polling 0, sleep 100 w)
      else (AwaitContexts (calls is_getContexts w),
            emit GetContexts (w\<lparr>offscreenDocumentCreating := True\<rparr>)))"
| "ensure_step h (Polling i) w =
     (if offscreenDocumentCreated w then (Returned, w)
      else if i + 1 < 50 then (Polling (i + 1), sleep 100 w)
      else (Thrown ''Timeout waiting for offscreen document creation'', w))"
| "ensure_step h (AwaitContexts k) w =
     (case getContexts h k of
        Inl e \<Rightarrow> ensure_catch e w
      | Inr existingContexts \<Rightarrow>
          (if existingContexts > 0
           then (Returned, w\<lparr>offscreenDocumentCreated := True, offscreenDocumentCreating := False\<rparr>)
           else (AwaitCreate (calls is_create w), emit CreateDocument w)))"
| "ensure_step h (AwaitCreate k) w =
     (case createDocument h k of
        None \<Rightarrow> (Returned, w\<lparr>offscreenDocumentCreated := True, offscreenDocumentCreating := False\<rparr>)
      | Some e \<Rightarrow> ensure_catch e w)"
| "ensure_step h Returned w = (Returned, w)"
| "ensure_step h (Thrown e) w = (Thrown e, w)"

text \<open>
  Several calls in flight on one thread: the schedule names, step by step, the call whose
  awaited promise settles next.
\<close>

type_synonym system = "pc list \<times> world"

definition sched_step :: "host \<Rightarrow> system \<Rightarrow> nat \<Rightarrow> system" where
  "sched_step h c k =
     (case c of (ps, w) \<Rightarrow>
        if k < length ps
        then (case ensure_step h (ps ! k) w of (p', w') \<Rightarrow> (ps[k := p'], w'))
        else (ps, w))"

definition run :: "host \<Rightarrow> nat list \<Rightarrow> system \<Rightarrow> system" where
  "run h sched c = foldl (sched_step h) c sched"

text \<open>One call awaited to its end with no other call in flight.\<close>

fun pc_rank :: "pc \<Rightarrow> nat" where
  "pc_rank Entry = 100"
| "pc_rank (Polling i) = 1 + (50 - i)"
| "pc_rank (AwaitContexts k) = 3"
| "pc_rank (AwaitCreate k) = 2"
| "pc_rank Returned = 0"
| "pc_rank (Thrown e) = 0"

fun settled :: "pc \<Rightarrow> bool" where
  "settled Returned = True"
| "settled (Thrown e) = True"
| "settled p = False"

function ensure_await :: "host \<Rightarrow> pc \<Rightarrow> world \<Rightarrow> (message + unit) \<times> world" where
  "ensure_await h p w =
     (case p of
        Returned \<Rightarrow> (Inr (), w)
      | Thrown e \<Rightarrow> (Inl e, w)
      | _ \<Rightarrow> ensure_await h (fst (ensure_step h p w)) (snd (ensure_step h p w)))"
  by pat_completeness auto
termination
  by (relation "measure (\<lambda>(h, p, w). pc_rank p)")
     (auto simp: ensure_catch_def split: sum.splits option.splits)

declare ensure_await.simps [simp del]

definition ensureOffscreenDocument :: "host \<Rightarrow> world \<Rightarrow> (message + unit) \<times> world" where
  "ensureOffscreenDocument h w = ensure_await h Entry w"

subsection \<open>The tile compositor of the offscreen document\<close>

text \<open>
  \<^verbatim>\<open>stitchScreenshots\<close> of \<^verbatim>\<open>offscreen.js\<close> returns a promise and installs
  two handlers on one image per screenshot; the handlers run later, one per image, in
  the order the browser finishes decoding. The state they share is the canvas, the two
  counters and the promise. The offscreen page is taken to contain the canvas element.
\<close>

datatype promise = Pending | Fulfilled dataUrl | RejectedWith message

record stitcher =
  st_canvas :: canvas
  currentY :: nat
  loadedCount :: nat
  outcome :: promise

text \<open>\<^verbatim>\<open>resolve\<close> and \<^verbatim>\<open>reject\<close> act on a pending promise only.\<close>

definition settle :: "promise \<Rightarrow> stitcher \<Rightarrow> stitcher" where
  "settle p st = (if outcome st = Pending then st\<lparr>outcome := p\<rparr> else st)"

text \<open>The decimal numeral a template literal prints for an index.\<close>

definition digit :: "nat \<Rightarrow> char" where
  "digit d = ''0123456789'' ! d"

fun show_nat :: "nat \<Rightarrow> string" where
  "show_nat n = (if n < 10 then [digit n] else show_nat (n div 10) @ [digit (n mod 10)])"

declare show_nat.simps [simp del]

definition img_onload ::
  "host \<Rightarrow> screenshot list \<Rightarrow> nat \<Rightarrow> nat \<Rightarrow> nat \<Rightarrow> stitcher \<Rightarrow> stitcher" where
  "img_onload h screenshots width index img_height st =
     (let drawn = st\<lparr>st_canvas := (st_canvas st)\<lparr>draws := draws (st_canvas st) @
                       [\<lparr>tile = index, dy = currentY st, dWidth = width, dHeight = img_height\<rparr>]\<rparr>,
                     currentY := currentY st + img_height,
                     loadedCount := loadedCount st + 1\<rparr>
      in if loadedCount drawn = length screenshots
         then settle (case toDataURL h (st_canvas drawn) of
                        Inr dataUrl \<Rightarrow> Fulfilled dataUrl
                      | Inl e \<Rightarrow> RejectedWith (''Failed to convert canvas to data URL: '' @ e))
                drawn
         else drawn)"

definition img_onerror :: "nat \<Rightarrow> stitcher \<Rightarrow> stitcher" where
  "img_onerror index st = settle (RejectedWith (''Failed to load screenshot '' @ show_nat index)) st"

text \<open>
  What \<^verbatim>\<open>img.src = screenshot.dataUrl\<close> leads to: the height of the decoded image, or
  no image. An undefined source does not decode.
\<close>

definition decode :: "host \<Rightarrow> screenshot \<Rightarrow> nat option" where
  "decode h s = (case shot_dataUrl s of None \<Rightarrow> None | Some u \<Rightarrow> image_height h u)"

text \<open>The event of the image of one index; an index outside the array has no image.\<close>

definition image_event :: "host \<Rightarrow> screenshot list \<Rightarrow> nat \<Rightarrow> stitcher \<Rightarrow> nat \<Rightarrow> stitcher" where
  "image_event h screenshots width st index =
     (if index < length screenshots then
        (case decode h (screenshots ! index) of
           Some img_height \<Rightarrow> img_onload h screenshots width index img_height st
         | None \<Rightarrow> img_onerror index st)
      else st)"

definition stitch_start :: "nat \<Rightarrow> nat \<Rightarrow> stitcher" where
  "stitch_start width totalHeight =
     \<lparr>st_canvas = \<lparr>cv_width = width, cv_height = totalHeight, draws = []\<rparr>,
      currentY = 0, loadedCount = 0, outcome = Pending\<rparr>"

definition stitch_events ::
  "host \<Rightarrow> screenshot list \<Rightarrow> nat \<Rightarrow> stitcher \<Rightarrow> nat list \<Rightarrow> stitcher" where
  "stitch_events h screenshots width st order = foldl (image_event h screenshots width) st order"

definition stitch_run :: "host \<Rightarrow> screenshot list \<Rightarrow> nat \<Rightarrow> nat \<Rightarrow> stitcher" where
  "stitch_run h screenshots width totalHeight =
     stitch_events h screenshots width (stitch_start width totalHeight) (load_order h)"

definition offscreen_stitchScreenshots ::
  "host \<Rightarrow> screenshot list \<Rightarrow> nat \<Rightarrow> nat \<Rightarrow> promise" where
  "offscreen_stitchScreenshots h screenshots width totalHeight =
     outcome (stitch_run h screenshots width totalHeight)"

text \<open>The answer of the offscreen listener, sent when the promise settles.\<close>

datatype stitch_response = StitchOk dataUrl | StitchFailed message

definition offscreen_onMessage ::
  "host \<Rightarrow> screenshot list \<Rightarrow> nat \<Rightarrow> nat \<Rightarrow> stitch_response option" where
  "offscreen_onMessage h screenshots width totalHeight =
     (case offscreen_stitchScreenshots h screenshots width totalHeight of
        Pending \<Rightarrow> None
      | Fulfilled dataUrl \<Rightarrow> Some (StitchOk dataUrl)
      | RejectedWith e \<Rightarrow> Some (StitchFailed e))"

text \<open>Every image fires exactly one event: the order is a permutation of the indices.\<close>

definition fires_each_once :: "host \<Rightarrow> nat \<Rightarrow> bool" where
  "fires_each_once h n = (distinct (load_order h) \<and> set (load_order h) = {..<n})"

subsection \<open>Stitching, seen from the worker\<close>

definition stitchScreenshots ::
  "host \<Rightarrow> screenshot list \<Rightarrow> nat \<Rightarrow> nat \<Rightarrow> world \<Rightarrow> ((message + dataUrl) \<times> world) option" where
  "stitchScreenshots h screenshots width totalHeight w =
     (case ensureOffscreenDocument h w of
        (Inl e, w1) \<Rightarrow> Some (Inl e, w1)
      | (Inr u, w1) \<Rightarrow>
          (let w2 = emit SendStitch w1 in
           case sendMessage h (calls is_send w1) of
             Undeliverable e \<Rightarrow> Some (Inl e, w2)
           | NoResponse \<Rightarrow> Some (Inl ''Failed to stitch screenshots'', w2)
           | Delivered \<Rightarrow>
               (case offscreen_onMessage h screenshots width totalHeight of
                  None \<Rightarrow> None
                | Some (StitchOk dataUrl) \<Rightarrow> Some (Inr dataUrl, w2)
                | Some (StitchFailed e) \<Rightarrow>
                    Some (Inl (if e = [] then ''Failed to stitch screenshots'' else e), w2))))"

subsection \<open>The capture session\<close>

text \<open>The \<^verbatim>\<open>catch\<close> block of lines 259 to 271: restore, swallow a failure, rethrow.\<close>

definition restore_and_rethrow ::
  "host \<Rightarrow> nat \<Rightarrow> message \<Rightarrow> world \<Rightarrow> (message + dataUrl) \<times> world" where
  "restore_and_rethrow h originalScrollY error w =
     (case exec_scroll h originalScrollY w of (r, w') \<Rightarrow> (Inl error, w'))"

definition captureFullPageWithScrolling ::
  "host \<Rightarrow> dimensions \<Rightarrow> world \<Rightarrow> ((message + dataUrl) \<times> world) option" where
  "captureFullPageWithScrolling h d w =
     (let n = numScreenshots (fullHeight d) (viewportHeight d);
          originalScrollY = scrollY d
      in case capture_loop h n (viewportHeight d) 0 [] w of
           None \<Rightarrow> None
         | Some (Inl e, w1) \<Rightarrow> Some (restore_and_rethrow h originalScrollY e w1)
         | Some (Inr screenshots, w1) \<Rightarrow>
             (case stitchScreenshots h screenshots (viewportWidth d) (fullHeight d) w1 of
                None \<Rightarrow> None
              | Some (Inl e, w2) \<Rightarrow> Some (restore_and_rethrow h originalScrollY e w2)
              | Some (Inr stitchedDataUrl, w2) \<Rightarrow>
                  (case exec_scroll h originalScrollY w2 of
                     (Inl e, w3) \<Rightarrow> Some (restore_and_rethrow h originalScrollY e w3)
                   | (Inr u, w3) \<Rightarrow> Some (Inr stitchedDataUrl, w3))))"

text \<open>The body of the \<^verbatim>\<open>try\<close> of \<^verbatim>\<open>handleCaptureScreenshot\<close>.\<close>

definition capture_attempt :: "host \<Rightarrow> world \<Rightarrow> ((message + dataUrl) \<times> world) option" where
  "capture_attempt h w =
     (case exec_probe h w of
        (Inl e, w1) \<Rightarrow> Some (Inl e, w1)
      | (Inr None, w1) \<Rightarrow> Some (Inl ''Failed to get page dimensions'', w1)
      | (Inr (Some dimensions), w1) \<Rightarrow>
          (if fullHeight dimensions \<le> viewportHeight dimensions
           then Some (captureSingleScreenshot h w1)
           else captureFullPageWithScrolling h dimensions w1))"

text \<open>
  The promise of \<^verbatim>\<open>handleCaptureScreenshot\<close>: \<open>Inl\<close> would be a rejection, \<open>Inr None\<close>
  is \<^verbatim>\<open>null\<close>.
\<close>

definition handleCaptureScreenshot ::
  "host \<Rightarrow> world \<Rightarrow> ((message + dataUrl option) \<times> world) option" where
  "handleCaptureScreenshot h w =
     (case capture_attempt h w of
        None \<Rightarrow> None
      | Some (Inl error, w') \<Rightarrow> Some (Inr None, w')
      | Some (Inr dataUrl, w') \<Rightarrow> Some (Inr (Some dataUrl), w'))"

text \<open>The \<^verbatim>\<open>captureScreenshot\<close> case of the message listener.\<close>

record capture_response =
  success :: bool
  dataUrl :: "dataUrl option"
  error :: "message option"

definition onMessage_captureScreenshot :: "host \<Rightarrow> world \<Rightarrow> capture_response option" where
  "onMessage_captureScreenshot h w =
     (case handleCaptureScreenshot h w of
        None \<Rightarrow> None
      | Some (Inr result, w') \<Rightarrow> Some \<lparr>success = True, dataUrl = result, error = None\<rparr>
      | Some (Inl e, w') \<Rightarrow> Some \<lparr>success = False, dataUrl = None, error = Some e\<rparr>)"

subsection \<open>Notions used in the statements\<close>

text \<open>No capture fails.\<close>

definition all_captures_succeed :: "host \<Rightarrow> bool" where
  "all_captures_succeed h = (\<forall>k. \<exists>t u. captureVisibleTab h k = (t, Inr u))"

text \<open>A page of 1500 pixels in a viewport of 800 by 600, scrolled to 40.\<close>

definition tall_page :: page where
  "tall_page =
     \<lparr>body_scrollHeight = 1500, body_offsetHeight = 1500, html_clientHeight = 600,
      html_scrollHeight = 1500, html_offsetHeight = 1500,
      innerWidth = 800, innerHeight = 600, window_scrollY = 40\<rparr>"

text \<open>A page that fits its viewport.\<close>

definition short_page :: page where
  "short_page =
     \<lparr>body_scrollHeight = 600, body_offsetHeight = 580, html_clientHeight = 600,
      html_scrollHeight = 600, html_offsetHeight = 580,
      innerWidth = 800, innerHeight = 600, window_scrollY = 0\<rparr>"

definition fresh_world :: "page \<Rightarrow> world" where
  "fresh_world p =
     \<lparr>page = p, trace = [], offscreenDocumentCreating = False, offscreenDocumentCreated = False\<rparr>"

text \<open>A browser in which every call succeeds and the images load in index order.\<close>

definition calm_host :: host where
  "calm_host =
     \<lparr>executeScript = (\<lambda>k. Ran),
      captureVisibleTab = (\<lambda>k. (120, Inr (''tile'' @ show_nat k))),
      getContexts = (\<lambda>k. Inr 0),
      createDocument = (\<lambda>k. None),
      sendMessage = (\<lambda>k. Delivered),
      image_height = (\<lambda>u. Some 600),
      load_order = [0, 1, 2],
      toDataURL = (\<lambda>c. Inr ''stitched''),
      cancel_signal = (\<lambda>k. False)\<rparr>"

text \<open>The first capture fails, every later one succeeds.\<close>

definition flaky_host :: host where
  "flaky_host =
     calm_host\<lparr>captureVisibleTab :=
       (\<lambda>k. if k = 0 then (50, Inl ''rate limited'') else (120, Inr (''tile'' @ show_nat k)))\<rparr>"

text \<open>The first capture succeeds, every later one fails.\<close>

definition throttled_host :: host where
  "throttled_host =
     calm_host\<lparr>captureVisibleTab :=
       (\<lambda>k. if k = 0 then (120, Inr ''tile0'') else (50, Inl ''rate limited''))\<rparr>"

text \<open>The tiles whose image decodes, and those whose image does not.\<close>

definition decodes :: "host \<Rightarrow> screenshot list \<Rightarrow> nat \<Rightarrow> bool" where
  "decodes h screenshots k = (k < length screenshots \<and> decode h (screenshots ! k) \<noteq> None)"

definition decode_fails :: "host \<Rightarrow> screenshot list \<Rightarrow> nat \<Rightarrow> bool" where
  "decode_fails h screenshots k = (k < length screenshots \<and> decode h (screenshots ! k) = None)"

text \<open>Two tiles of a page of 900 pixels: the second image is 300 pixels high.\<close>

definition two_tiles :: "screenshot list" where
  "two_tiles =
     [\<lparr>shot_dataUrl = Some ''tile0'', shot_index = 0, shot_scrollY = 0\<rparr>,
      \<lparr>shot_dataUrl = Some ''tile1'', shot_index = 1, shot_scrollY = 600\<rparr>]"

definition in_order_host :: host where
  "in_order_host =
     calm_host\<lparr>image_height := (\<lambda>u. if u = ''tile1'' then Some 300 else Some 600),
               load_order := [0, 1]\<rparr>"

text \<open>The same browser, but the second image finishes decoding first.\<close>

definition out_of_order_host :: host where
  "out_of_order_host = in_order_host\<lparr>load_order := [1, 0]\<rparr>"

text \<open>Five tiles, of which the one of index 2 does not decode.\<close>

definition five_tiles :: "screenshot list" where
  "five_tiles =
     [\<lparr>shot_dataUrl = Some ''tile0'', shot_index = 0, shot_scrollY = 0\<rparr>,
      \<lparr>shot_dataUrl = Some ''tile1'', shot_index = 1, shot_scrollY = 600\<rparr>,
      \<lparr>shot_dataUrl = Some ''broken'', shot_index = 2, shot_scrollY = 1200\<rparr>,
      \<lparr>shot_dataUrl = Some ''tile3'', shot_index = 3, shot_scrollY = 1800\<rparr>,
      \<lparr>shot_dataUrl = Some ''tile4'', shot_index = 4, shot_scrollY = 2400\<rparr>]"

definition broken_tile_host :: host where
  "broken_tile_host =
     calm_host\<lparr>image_height := (\<lambda>u. if u = ''broken'' then None else Some 600),
               load_order := [3, 0, 4, 2, 1]\<rparr>"

text \<open>
  Two overlapping calls of \<^verbatim>\<open>ensureOffscreenDocument\<close>: call 0 found no attempt in
  flight and provisions, call 1 finds the attempt of call 0 in flight and waits. The
  predicates say where each of them can be: \<open>c\<close> and \<open>g\<close> are the numbers of
  \<^verbatim>\<open>createDocument\<close> and \<^verbatim>\<open>getContexts\<close> calls made before the two calls,
  \<open>n\<close> is the number of times the waiting call has been resumed, \<open>m\<close> the number of
  waits it has started, and \<open>l\<close> the length of the trace before the two calls.
\<close>

fun provisioner_at :: "nat \<Rightarrow> nat \<Rightarrow> pc \<Rightarrow> world \<Rightarrow> bool" where
  "provisioner_at c g (AwaitContexts k) w =
     (calls is_create w = c \<and> calls is_getContexts w = g + 1
      \<and> offscreenDocumentCreating w \<and> \<not> offscreenDocumentCreated w)"
| "provisioner_at c g (AwaitCreate k) w =
     (calls is_create w = c + 1 \<and> calls is_getContexts w = g + 1
      \<and> offscreenDocumentCreating w \<and> \<not> offscreenDocumentCreated w)"
| "provisioner_at c g Returned w =
     (calls is_create w \<le> c + 1 \<and> calls is_getContexts w = g + 1
      \<and> offscreenDocumentCreated w)"
| "provisioner_at c g (Thrown e) w =
     (calls is_create w \<le> c + 1 \<and> calls is_getContexts w = g + 1
      \<and> \<not> offscreenDocumentCreated w)"
| "provisioner_at c g p w = False"

fun waiter_at :: "nat \<Rightarrow> nat \<Rightarrow> pc \<Rightarrow> world \<Rightarrow> bool" where
  "waiter_at n m (Polling i) w = (i = n \<and> i < 50 \<and> m = i + 1)"
| "waiter_at n m Returned w = (offscreenDocumentCreated w \<and> 1 \<le> m \<and> m \<le> 50)"
| "waiter_at n m (Thrown e) w =
     (e = ''Timeout waiting for offscreen document creation'' \<and> 50 \<le> n \<and> m = 50)"
| "waiter_at n m p w = False"

text \<open>A call that has entered and has neither returned nor thrown.\<close>

definition in_flight :: "pc \<Rightarrow> bool" where
  "in_flight p = (p \<noteq> Entry \<and> \<not> settled p)"

text \<open>The waits started since the trace had length \<open>l\<close>, in milliseconds.\<close>

definition waits_since :: "nat \<Rightarrow> world \<Rightarrow> nat list" where
  "waits_since l w = sleeps (drop l (trace w))"

text \<open>Call 0 alone, call 1 not yet entered.\<close>

definition provisioning_alone :: "nat \<Rightarrow> nat \<Rightarrow> nat \<Rightarrow> system \<Rightarrow> bool" where
  "provisioning_alone c g l s =
     (case s of (ps, w) \<Rightarrow>
        length ps = 2 \<and> ps ! 1 = Entry \<and> l \<le> length (trace w) \<and> waits_since l w = []
        \<and> (if ps ! 0 = Entry
            then calls is_create w = c \<and> calls is_getContexts w = g
                 \<and> \<not> offscreenDocumentCreating w \<and> \<not> offscreenDocumentCreated w
            else provisioner_at c g (ps ! 0) w))"

text \<open>Both calls entered, call 1 while call 0 was in flight.\<close>

definition overlapping :: "nat \<Rightarrow> nat \<Rightarrow> nat \<Rightarrow> nat \<Rightarrow> system \<Rightarrow> bool" where
  "overlapping c g l n s =
     (case s of (ps, w) \<Rightarrow>
        length ps = 2 \<and> l \<le> length (trace w)
        \<and> provisioner_at c g (ps ! 0) w
        \<and> waiter_at n (length (waits_since l w)) (ps ! 1) w
        \<and> set (waits_since l w) \<subseteq> {100})"

text \<open>A browser that refuses to create the offscreen document.\<close>

definition refusing_host :: host where
  "refusing_host = calm_host\<lparr>createDocument := (\<lambda>k. Some ''Offscreen API unavailable'')\<rparr>"

text \<open>
  The tab goes away during the second tile: the captures fail and so does every later
  injection.
\<close>

definition lost_tab_host :: host where
  "lost_tab_host =
     throttled_host\<lparr>executeScript := (\<lambda>k. if k < 2 then Ran else Rejected ''No tab with id'')\<rparr>"

text \<open>Everything succeeds but the fourth injection, which is the restoring scroll.\<close>

definition restore_fails_host :: host where
  "restore_fails_host =
     calm_host\<lparr>executeScript := (\<lambda>k. if k = 3 then Rejected ''Frame was removed'' else Ran)\<rparr>"

text \<open>Every call succeeds, and cancellation is asked for from the start.\<close>

definition cancelling_host :: host where
  "cancelling_host = calm_host\<lparr>cancel_signal := (\<lambda>k. True)\<rparr>"

section \<open>Properties\<close>


subsection \<open>Frame facts of the primitives\<close>

lemma trace_emit [simp]: "trace (emit e w) = trace w @ [e]"
  by (simp add: emit_def)

lemma page_emit [simp]: "page (emit e w) = page w"
  by (simp add: emit_def)

lemma creating_emit [simp]: "offscreenDocumentCreating (emit e w) = offscreenDocumentCreating w"
  by (simp add: emit_def)

lemma created_emit [simp]: "offscreenDocumentCreated (emit e w) = offscreenDocumentCreated w"
  by (simp add: emit_def)

lemma calls_emit [simp]: "calls p (emit e w) = (if p e then Suc (calls p w) else calls p w)"
  by (simp add: calls_def)

lemma calls_page_update [simp]: "calls p (w\<lparr>page := q\<rparr>) = calls p w"
  by (simp add: calls_def)

lemma calls_flag_update [simp]:
  "calls p (w\<lparr>offscreenDocumentCreating := a\<rparr>) = calls p w"
  "calls p (w\<lparr>offscreenDocumentCreated := b\<rparr>) = calls p w"
  by (simp_all add: calls_def)

lemma then_events_simps [simp]:
  "trace (then_events w es) = trace w @ es"
  "page (then_events w es) = page w"
  "offscreenDocumentCreating (then_events w es) = offscreenDocumentCreating w"
  "offscreenDocumentCreated (then_events w es) = offscreenDocumentCreated w"
  "calls p (then_events w es) = calls p w + length (filter p es)"
  by (simp_all add: then_events_def calls_def)

lemma emit_then_events: "emit e w = then_events w [e]"
  by (simp add: emit_def then_events_def)

lemma then_events_then_events [simp]: "then_events (then_events w es) fs = then_events w (es @ fs)"
  by (simp add: then_events_def)

lemma scroll_targets_append [simp]:
  "scroll_targets (es @ fs) = scroll_targets es @ scroll_targets fs"
  by (induction es rule: scroll_targets.induct) simp_all

lemma sleeps_append [simp]: "sleeps (es @ fs) = sleeps es @ sleeps fs"
  by (induction es rule: sleeps.induct) simp_all

lemma exec_scroll_cases:
  assumes "exec_scroll h y w = (r, w')"
  shows "trace w' = trace w @ [ExecScroll y]"
    and "offscreenDocumentCreating w' = offscreenDocumentCreating w"
    and "offscreenDocumentCreated w' = offscreenDocumentCreated w"
    and "executeScript h (calls is_exec w) = Ran \<Longrightarrow> window_scrollY (page w') = y"
  using assms
  by (auto simp: exec_scroll_def Let_def scrollToPosition_def split: injection.splits)

lemma calls_after_exec_scroll:
  "exec_scroll h y w = (r, w') \<Longrightarrow>
   calls p w' = (if p (ExecScroll y) then Suc (calls p w) else calls p w)"
  by (auto simp: exec_scroll_def Let_def split: injection.splits)

subsection \<open>The retry loop, unrolled\<close>

lemma capture_retry_unrolled:
  "capture_retry h 0 w =
     (let c = calls is_capture w in
      case snd (captureVisibleTab h c) of
        Inr u \<Rightarrow> (Inr (Some u), then_events w [CaptureVisibleTab])
      | Inl e1 \<Rightarrow>
         (case snd (captureVisibleTab h (c + 1)) of
            Inr u \<Rightarrow> (Inr (Some u), then_events w [CaptureVisibleTab, Sleep 1000, CaptureVisibleTab])
          | Inl e2 \<Rightarrow>
             (case snd (captureVisibleTab h (c + 2)) of
                Inr u \<Rightarrow> (Inr (Some u), then_events w
                   [CaptureVisibleTab, Sleep 1000, CaptureVisibleTab, Sleep 2000, CaptureVisibleTab])
              | Inl e3 \<Rightarrow> (Inl e3, then_events w
                   [CaptureVisibleTab, Sleep 1000, CaptureVisibleTab, Sleep 2000, CaptureVisibleTab]))))"
  by (simp add: capture_retry.simps capture_def sleep_def maxRetries_def waitTime_def
        then_events_def emit_def calls_def Let_def split: sum.splits prod.splits)

text \<open>What one run of the retry loop leaves behind, whatever its result.\<close>

lemma capture_retry_frame:
  assumes "capture_retry h 0 w = (r, w')"
  shows "\<exists>es. w' = then_events w es \<and> scroll_targets es = [] \<and> filter is_exec es = []
           \<and> filter is_send es = [] \<and> filter is_getContexts es = [] \<and> filter is_create es = []
           \<and> 1 \<le> length (filter is_capture es) \<and> length (filter is_capture es) \<le> 3
           \<and> ((\<forall>k. \<exists>t u. captureVisibleTab h k = (t, Inr u)) \<longrightarrow> es = [CaptureVisibleTab])"
proof -
  let ?c = "calls is_capture w"
  show ?thesis
  proof (cases "snd (captureVisibleTab h ?c)")
    case (Inr u)
    with assms show ?thesis
      by (intro exI [of _ "[CaptureVisibleTab]"]) (auto simp: capture_retry_unrolled Let_def)
  next
    case e1: (Inl e1)
    then have nok: "\<not> (\<forall>k. \<exists>t u. captureVisibleTab h k = (t, Inr u))"
      by (metis Inl_Inr_False snd_conv)
    show ?thesis
    proof (cases "snd (captureVisibleTab h (?c + 1))")
      case (Inr u)
      with assms e1 nok show ?thesis
        by (intro exI [of _ "[CaptureVisibleTab, Sleep 1000, CaptureVisibleTab]"])
           (auto simp: capture_retry_unrolled Let_def)
    next
      case e2: (Inl e2)
      with assms e1 nok show ?thesis
        by (intro exI [of _ "[CaptureVisibleTab, Sleep 1000, CaptureVisibleTab,
                              Sleep 2000, CaptureVisibleTab]"])
           (auto simp: capture_retry_unrolled Let_def split: sum.splits)
    qed
  qed
qed

subsection \<open>The capture loop\<close>

lemma capture_loop_done:
  "\<not> enat i < n \<Longrightarrow> capture_loop h n vh i shots w = Some (Inr shots, w)"
  by (subst capture_loop.simps) simp

lemma capture_loop_scroll_fails:
  "enat i < n \<Longrightarrow> exec_scroll h (i * vh) w = (Inl e, w1) \<Longrightarrow>
   capture_loop h n vh i shots w = Some (Inl e, w1)"
  by (subst capture_loop.simps) simp

lemma capture_loop_capture_fails:
  "enat i < n \<Longrightarrow> exec_scroll h (i * vh) w = (Inr u, w1) \<Longrightarrow>
   capture_retry h 0 (sleep 500 w1) = (Inl e, w2) \<Longrightarrow>
   capture_loop h n vh i shots w = Some (Inl e, w2)"
  by (subst capture_loop.simps) simp

lemma capture_loop_next:
  "enat i < n \<Longrightarrow> exec_scroll h (i * vh) w = (Inr u, w1) \<Longrightarrow>
   capture_retry h 0 (sleep 500 w1) = (Inr url, w2) \<Longrightarrow>
   capture_loop h n vh i shots w =
     capture_loop h n vh (i + 1)
       (shots @ [\<lparr>shot_dataUrl = url, shot_index = i, shot_scrollY = i * vh\<rparr>])
       (if enat i < n - 1 then sleep 1100 w2 else w2)"
  by (subst capture_loop.simps) simp

text \<open>With finitely many tiles the loop ends.\<close>

lemma capture_loop_returns:
  "\<exists>r. capture_loop h (enat N) vh i shots w = Some r"
proof (induction "N - i" arbitrary: i shots w)
  case 0
  then show ?case by (simp add: capture_loop_done)
next
  case (Suc m)
  then have lt: "enat i < enat N" by simp
  obtain r1 w1 where s: "exec_scroll h (i * vh) w = (r1, w1)" by (cases "exec_scroll h (i * vh) w")
  show ?case
  proof (cases r1)
    case (Inl e)
    with lt s show ?thesis by (simp add: capture_loop_scroll_fails)
  next
    case (Inr u)
    obtain r2 w2 where c: "capture_retry h 0 (sleep 500 w1) = (r2, w2)"
      by (cases "capture_retry h 0 (sleep 500 w1)")
    show ?thesis
    proof (cases r2)
      case (Inl e)
      with lt s Inr c show ?thesis by (simp add: capture_loop_capture_fails)
    next
      case (Inr url)
      from Suc.hyps(2) have "m = N - (i + 1)" by simp
      from Suc.hyps(1) [OF this] lt s \<open>r1 = Inr u\<close> c Inr show ?thesis
        by (simp add: capture_loop_next)
    qed
  qed
qed

text \<open>The events of a loop that ran to its end, from tile \<open>i\<close> on.\<close>

lemma capture_loop_completed:
  assumes "capture_loop h (enat N) vh i shots w = Some (Inr shots', w')"
  shows "\<exists>es. trace w' = trace w @ es
           \<and> scroll_targets es = map (\<lambda>j. j * vh) [i..<N]
           \<and> map shot_index shots' = map shot_index shots @ [i..<N]
           \<and> map shot_scrollY shots' = map shot_scrollY shots @ map (\<lambda>j. j * vh) [i..<N]
           \<and> N - i \<le> length (filter is_capture es)
           \<and> length (filter is_capture es) \<le> 3 * (N - i)
           \<and> (all_captures_succeed h \<longrightarrow> length (filter is_capture es) = N - i)
           \<and> filter is_send es = [] \<and> filter is_getContexts es = [] \<and> filter is_create es = []
           \<and> offscreenDocumentCreating w' = offscreenDocumentCreating w
           \<and> offscreenDocumentCreated w' = offscreenDocumentCreated w"
  using assms
proof (induction "N - i" arbitrary: i shots w)
  case 0
  then have "\<not> enat i < enat N" by simp
  with 0 show ?case by (simp add: capture_loop_done)
next
  case (Suc m)
  then have lt: "enat i < enat N" and iN: "i < N" by simp_all
  obtain r1 w1 where s: "exec_scroll h (i * vh) w = (r1, w1)" by (cases "exec_scroll h (i * vh) w")
  obtain r2 w2 where c: "capture_retry h 0 (sleep 500 w1) = (r2, w2)"
    by (cases "capture_retry h 0 (sleep 500 w1)")
  from Suc.prems lt s obtain u where r1: "r1 = Inr u"
    by (cases r1) (simp_all add: capture_loop_scroll_fails)
  from Suc.prems lt s r1 c obtain url where r2: "r2 = Inr url"
    by (cases r2) (simp_all add: capture_loop_capture_fails)
  let ?w3 = "if enat i < enat N - 1 then sleep 1100 w2 else w2"
  let ?shots = "shots @ [\<lparr>shot_dataUrl = url, shot_index = i, shot_scrollY = i * vh\<rparr>]"
  from Suc.prems lt s r1 c r2
  have next_run: "capture_loop h (enat N) vh (i + 1) ?shots ?w3 = Some (Inr shots', w')"
    by (simp add: capture_loop_next)
  from Suc.hyps(2) have m: "m = N - (i + 1)" by simp
  from Suc.hyps(1) [OF m next_run] obtain es where es:
    "trace w' = trace ?w3 @ es"
    "scroll_targets es = map (\<lambda>j. j * vh) [i + 1..<N]"
    "map shot_index shots' = map shot_index ?shots @ [i + 1..<N]"
    "map shot_scrollY shots' = map shot_scrollY ?shots @ map (\<lambda>j. j * vh) [i + 1..<N]"
    "N - (i + 1) \<le> length (filter is_capture es)"
    "length (filter is_capture es) \<le> 3 * (N - (i + 1))"
    "all_captures_succeed h \<longrightarrow> length (filter is_capture es) = N - (i + 1)"
    "filter is_send es = []" "filter is_getContexts es = []" "filter is_create es = []"
    "offscreenDocumentCreating w' = offscreenDocumentCreating ?w3"
    "offscreenDocumentCreated w' = offscreenDocumentCreated ?w3"
    by blast
  have sy: "map shot_scrollY shots' = map shot_scrollY shots @ map (\<lambda>j. j * vh) [i..<N]"
    using es(4) iN by (simp add: upt_conv_Cons)
  from capture_retry_frame [OF c] obtain cs where cs:
    "w2 = then_events (sleep 500 w1) cs" "scroll_targets cs = []"
    "filter is_send cs = []" "filter is_getContexts cs = []" "filter is_create cs = []"
    "1 \<le> length (filter is_capture cs)" "length (filter is_capture cs) \<le> 3"
    "(\<forall>k. \<exists>t u. captureVisibleTab h k = (t, Inr u)) \<longrightarrow> cs = [CaptureVisibleTab]"
    by blast
  let ?tail = "if enat i < enat N - 1 then [Sleep 1100] else []"
  let ?es = "[ExecScroll (i * vh), Sleep 500] @ cs @ ?tail @ es"
  have tr: "trace w' = trace w @ ?es"
    using es(1) cs(1) exec_scroll_cases(1) [OF s] by (simp add: sleep_def)
  have upt: "[i..<N] = i # [i + 1..<N]" using iN by (simp add: upt_conv_Cons)
  have "scroll_targets ?es = map (\<lambda>j. j * vh) [i..<N]"
    using es(2) cs(2) by (simp add: upt)
  moreover have "map shot_index shots' = map shot_index shots @ [i..<N]"
    using es(3) by (simp add: upt)
  moreover have "N - i \<le> length (filter is_capture ?es)"
    using es(5) cs(6) iN by simp
  moreover have "length (filter is_capture ?es) \<le> 3 * (N - i)"
    using es(6) cs(7) iN by simp
  moreover have "all_captures_succeed h \<longrightarrow> length (filter is_capture ?es) = N - i"
    using es(7) cs(8) iN by (auto simp: all_captures_succeed_def)
  moreover have "filter is_send ?es = []" "filter is_getContexts ?es = []" "filter is_create ?es = []"
    using es(8-10) cs(3-5) by simp_all
  moreover have "offscreenDocumentCreating w' = offscreenDocumentCreating w"
    "offscreenDocumentCreated w' = offscreenDocumentCreated w"
    using es(11,12) cs(1) exec_scroll_cases(2,3) [OF s] by (simp_all add: sleep_def)
  ultimately show ?case using tr sy by blast
qed

text \<open>An error of the loop is an error of the browser.\<close>

lemma capture_loop_error_cause:
  assumes "capture_loop h (enat N) vh i shots w = Some (Inl e, w')"
  shows "(\<exists>k. executeScript h k = Rejected e) \<or> (\<exists>k t. captureVisibleTab h k = (t, Inl e))"
  using assms
proof (induction "N - i" arbitrary: i shots w)
  case 0
  then have "\<not> enat i < enat N" by simp
  with 0 show ?case by (simp add: capture_loop_done)
next
  case (Suc m)
  then have lt: "enat i < enat N" by simp
  obtain r1 w1 where s: "exec_scroll h (i * vh) w = (r1, w1)" by (cases "exec_scroll h (i * vh) w")
  obtain r2 w2 where c: "capture_retry h 0 (sleep 500 w1) = (r2, w2)"
    by (cases "capture_retry h 0 (sleep 500 w1)")
  show ?case
  proof (cases r1)
    case (Inl e1)
    with Suc.prems lt s have "e1 = e" by (simp add: capture_loop_scroll_fails)
    with s Inl have "executeScript h (calls is_exec w) = Rejected e"
      by (auto simp: exec_scroll_def Let_def split: injection.splits)
    then show ?thesis by blast
  next
    case r1: (Inr u)
    show ?thesis
    proof (cases r2)
      case (Inl e2)
      with Suc.prems lt s r1 c have "e2 = e" by (simp add: capture_loop_capture_fails)
      with c Inl have "\<exists>k. snd (captureVisibleTab h k) = Inl e"
        by (auto simp: capture_retry_unrolled Let_def split: sum.splits)
      then show ?thesis by (metis prod.collapse)
    next
      case (Inr url)
      from Suc.hyps(2) have m: "m = N - (i + 1)" by simp
      from Suc.prems lt s r1 c Inr show ?thesis
        by (intro Suc.hyps(1) [OF m]) (simp add: capture_loop_next)
    qed
  qed
qed

lemma ceiling_div:
  assumes "0 < (vh::nat)" "vh < fh"
  shows "fh \<le> ((fh + vh - 1) div vh) * vh" and "((fh + vh - 1) div vh - 1) * vh < fh"
    and "2 \<le> (fh + vh - 1) div vh"
proof -
  let ?N = "(fh + vh - 1) div vh"
  have a: "fh + vh - 1 = ?N * vh + (fh + vh - 1) mod vh" by simp
  have b: "(fh + vh - 1) mod vh < vh" using assms by simp
  from a b show "fh \<le> ?N * vh" using assms by linarith
  have "vh \<le> fh + vh - 1" using assms by simp
  then have "1 \<le> ?N" using assms by (simp add: Suc_le_eq div_greater_zero_iff)
  then obtain k where k: "?N = Suc k" by (cases ?N) auto
  have "(?N - 1) * vh + vh = ?N * vh" unfolding k by simp
  with a show "(?N - 1) * vh < fh" using assms by linarith
  show "2 \<le> ?N"
  proof (rule ccontr)
    assume "\<not> 2 \<le> ?N"
    then have "?N \<le> 1" by simp
    then have "?N * vh \<le> vh" by (metis mult_le_mono1 nat_mult_1)
    with \<open>fh \<le> ?N * vh\<close> assms show False by linarith
  qed
qed

subsection \<open>The session around the loop\<close>

lemma restore_and_rethrow_frame:
  assumes "restore_and_rethrow h y e w = (r, w')"
  shows "r = Inl e" and "trace w' = trace w @ [ExecScroll y]"
    and "offscreenDocumentCreating w' = offscreenDocumentCreating w"
    and "offscreenDocumentCreated w' = offscreenDocumentCreated w"
    and "executeScript h (calls is_exec w) = Ran \<Longrightarrow> window_scrollY (page w') = y"
  using assms
  by (auto simp: restore_and_rethrow_def exec_scroll_def Let_def scrollToPosition_def
           split: injection.splits prod.splits)

lemma session_aborts_with_loop_error:
  assumes "capture_loop h (numScreenshots (fullHeight d) (viewportHeight d)) (viewportHeight d) 0 [] w
             = Some (Inl e, w1)"
  shows "captureFullPageWithScrolling h d w = Some (restore_and_rethrow h (scrollY d) e w1)"
  using assms by (simp add: captureFullPageWithScrolling_def Let_def)


lemma offsets_increasing: "0 < (vh::nat) \<Longrightarrow> sorted_wrt (<) (map (\<lambda>j. j * vh) [0..<N])"
  by (induction N) (auto simp: sorted_wrt_append)


subsection \<open>The compositor\<close>

lemma stitch_events_snoc:
  "stitch_events h shots width st (xs @ [x])
     = image_event h shots width (stitch_events h shots width st xs) x"
  by (simp add: stitch_events_def)

lemma stitch_events_Nil [simp]: "stitch_events h shots width st [] = st"
  by (simp add: stitch_events_def)

lemma image_event_outside:
  "\<not> decodes h shots x \<Longrightarrow> \<not> decode_fails h shots x \<Longrightarrow> image_event h shots width st x = st"
  by (auto simp: image_event_def decodes_def decode_fails_def)

lemma image_event_error:
  "decode_fails h shots x \<Longrightarrow> image_event h shots width st x = img_onerror x st"
  by (auto simp: image_event_def decode_fails_def)

lemma image_event_load:
  "decodes h shots x \<Longrightarrow>
   image_event h shots width st x = img_onload h shots width x (the (decode h (shots ! x))) st"
  by (auto simp: image_event_def decodes_def)

lemma settled_stays:
  "outcome st \<noteq> Pending \<Longrightarrow> outcome (image_event h shots width st x) = outcome st"
  by (auto simp: image_event_def img_onload_def img_onerror_def settle_def Let_def
           split: option.splits)

lemma loadedCount_image_event:
  "loadedCount (image_event h shots width st x)
     = (if decodes h shots x then Suc (loadedCount st) else loadedCount st)"
  by (auto simp: image_event_def img_onload_def img_onerror_def settle_def Let_def decodes_def
           split: option.splits)

lemma loadedCount_stitch_events:
  "loadedCount (stitch_events h shots width st xs)
     = loadedCount st + length (filter (decodes h shots) xs)"
  by (induction xs rule: rev_induct) (simp_all add: stitch_events_snoc loadedCount_image_event)

text \<open>Fewer images have loaded than there are tiles, and none has failed: still pending.\<close>

lemma pending_while_loading:
  assumes "outcome st = Pending"
    and "\<forall>x \<in> set xs. \<not> decode_fails h shots x"
    and "loadedCount st + length (filter (decodes h shots) xs) < length shots"
  shows "outcome (stitch_events h shots width st xs) = Pending"
  using assms
proof (induction xs rule: rev_induct)
  case Nil
  then show ?case by simp
next
  case (snoc x xs)
  let ?st = "stitch_events h shots width st xs"
  from snoc have pend: "outcome ?st = Pending" by simp
  show ?case
  proof (cases "decodes h shots x")
    case True
    with snoc.prems have "Suc (loadedCount ?st) \<noteq> length shots"
      by (simp add: loadedCount_stitch_events)
    with True pend show ?thesis
      by (simp add: stitch_events_snoc image_event_load img_onload_def Let_def)
  next
    case False
    with snoc.prems pend show ?thesis
      by (simp add: stitch_events_snoc image_event_outside)
  qed
qed

lemma distinct_decoding_bound:
  assumes "distinct xs" and "k < length shots" and "k \<notin> set (filter (decodes h shots) xs)"
  shows "length (filter (decodes h shots) xs) < length shots"
proof -
  let ?ys = "filter (decodes h shots) xs"
  have d: "distinct ?ys" using assms(1) by simp
  have "set ?ys \<subseteq> {..<length shots} - {k}"
    using assms(3) by (auto simp: decodes_def)
  then have "card (set ?ys) \<le> card ({..<length shots} - {k})"
    by (intro card_mono) auto
  also have "\<dots> = length shots - 1" using assms(2) by simp
  finally have "card (set ?ys) \<le> length shots - 1" .
  moreover have "card (set ?ys) = length ?ys" using d by (rule distinct_card)
  ultimately show ?thesis using assms(2) by linarith
qed

lemma find_append:
  "find P (xs @ ys) = (case find P xs of None \<Rightarrow> find P ys | Some x \<Rightarrow> Some x)"
  by (induction xs) simp_all

text \<open>The first image that fails to decode rejects the promise, and nothing changes that.\<close>

lemma first_failure_rejects:
  assumes "distinct xs"
    and "find (decode_fails h shots) xs = Some j"
  shows "outcome (stitch_events h shots width (stitch_start width th) xs)
           = RejectedWith (''Failed to load screenshot '' @ show_nat j)"
  using assms
proof (induction xs rule: rev_induct)
  case Nil
  then show ?case by simp
next
  case (snoc x xs)
  let ?st = "stitch_events h shots width (stitch_start width th) xs"
  show ?case
  proof (cases "find (decode_fails h shots) xs")
    case (Some j')
    with snoc.prems have "j' = j" by (simp add: find_append)
    with Some snoc have "outcome ?st = RejectedWith (''Failed to load screenshot '' @ show_nat j)"
      by simp
    then show ?thesis by (simp add: stitch_events_snoc settled_stays)
  next
    case None
    with snoc.prems have x: "decode_fails h shots x" "x = j"
      by (auto simp: find_append split: if_splits)
    from None have nobad: "\<forall>y \<in> set xs. \<not> decode_fails h shots y"
      by (simp add: find_None_iff)
    from x have "x < length shots" "\<not> decodes h shots x"
      by (simp_all add: decode_fails_def decodes_def)
    with snoc.prems(1) have "length (filter (decodes h shots) xs) < length shots"
      by (intro distinct_decoding_bound [where k = x]) auto
    with nobad have "outcome ?st = Pending"
      by (intro pending_while_loading) (simp_all add: stitch_start_def)
    with x show ?thesis
      by (simp add: stitch_events_snoc image_event_error img_onerror_def settle_def)
  qed
qed

text \<open>With a tile that does not decode, the promise is never fulfilled.\<close>

lemma never_fulfilled_with_failure:
  assumes "distinct xs" and "decode_fails h shots k"
  shows "outcome (stitch_events h shots width (stitch_start width th) xs) \<noteq> Fulfilled u"
proof (cases "find (decode_fails h shots) xs")
  case (Some j)
  from first_failure_rejects [OF assms(1) Some] show ?thesis by simp
next
  case None
  then have nobad: "\<forall>y \<in> set xs. \<not> decode_fails h shots y"
    by (simp add: find_None_iff)
  with assms(2) have "k \<notin> set xs" by blast
  with assms have "length (filter (decodes h shots) xs) < length shots"
    by (intro distinct_decoding_bound [where k = k]) (auto simp: decode_fails_def)
  with nobad have "outcome (stitch_events h shots width (stitch_start width th) xs) = Pending"
    by (intro pending_while_loading) (simp_all add: stitch_start_def)
  then show ?thesis by simp
qed

text \<open>When every image fires its event, the promise settles.\<close>

lemma img_onload_last:
  assumes "outcome st = Pending" and "Suc (loadedCount st) = length shots"
  shows "outcome (img_onload h shots width x hgt st) \<noteq> Pending"
proof (cases "toDataURL h ((st_canvas st)\<lparr>draws := draws (st_canvas st) @
                 [\<lparr>tile = x, dy = currentY st, dWidth = width, dHeight = hgt\<rparr>]\<rparr>)")
  case (Inl e)
  with assms show ?thesis by (simp add: img_onload_def settle_def Let_def)
next
  case (Inr u)
  with assms show ?thesis by (simp add: img_onload_def settle_def Let_def)
qed


lemma fires_each_onceD:
  assumes "fires_each_once h n"
  shows "distinct (load_order h)" and "set (load_order h) = {..<n}"
  using assms unfolding fires_each_once_def by blast+

lemma stitch_settles:
  assumes "fires_each_once h (length shots)" and "0 < length shots"
  shows "offscreen_stitchScreenshots h shots width th \<noteq> Pending"
proof (cases "find (decode_fails h shots) (load_order h)")
  case (Some j)
  from assms(1) have "distinct (load_order h)" by (rule fires_each_onceD)
  from first_failure_rejects [OF this Some] show ?thesis
    by (simp add: offscreen_stitchScreenshots_def stitch_run_def)
next
  case None
  then have nobad: "\<forall>y \<in> set (load_order h). \<not> decode_fails h shots y"
    by (simp add: find_None_iff)
  have ne: "load_order h \<noteq> []"
  proof
    assume "load_order h = []"
    with fires_each_onceD(2) [OF assms(1)] have "{..<length shots} = {}" by simp
    moreover from assms(2) have "0 \<in> {..<length shots}" by simp
    ultimately show False by blast
  qed
  then obtain xs x where xs: "load_order h = xs @ [x]"
    by (cases "load_order h" rule: rev_cases) auto
  let ?st = "stitch_events h shots width (stitch_start width th) xs"
  from fires_each_onceD [OF assms(1)] xs
  have dist: "distinct (xs @ [x])" and all: "set (xs @ [x]) = {..<length shots}"
    by simp_all
  have ok: "decodes h shots y" if "y \<in> set (xs @ [x])" for y
  proof -
    from that all have "y < length shots" by blast
    moreover from that nobad xs have "\<not> decode_fails h shots y" by auto
    ultimately show ?thesis by (simp add: decodes_def decode_fails_def)
  qed
  have "length (xs @ [x]) = card (set (xs @ [x]))"
    using dist by (simp only: distinct_card)
  also have "\<dots> = length shots" by (simp only: all card_lessThan)
  finally have len: "Suc (length xs) = length shots" by simp
  have keep: "filter (decodes h shots) xs = xs" using ok by (simp add: filter_id_conv)
  have loaded: "loadedCount ?st = length xs"
    by (simp add: loadedCount_stitch_events stitch_start_def keep)
  have "outcome ?st = Pending"
  proof (rule pending_while_loading)
    show "outcome (stitch_start width th) = Pending" by (simp add: stitch_start_def)
    show "\<forall>y \<in> set xs. \<not> decode_fails h shots y" using nobad xs by simp
    show "loadedCount (stitch_start width th) + length (filter (decodes h shots) xs) < length shots"
      using len by (simp add: keep stitch_start_def)
  qed
  moreover have "Suc (loadedCount ?st) = length shots" using loaded len by simp
  ultimately have "outcome (img_onload h shots width x (the (decode h (shots ! x))) ?st) \<noteq> Pending"
    by (rule img_onload_last)
  moreover have "decodes h shots x" using ok by simp
  ultimately show ?thesis
    by (simp add: offscreen_stitchScreenshots_def stitch_run_def xs stitch_events_snoc
          image_event_load)
qed

text \<open>
  What the compositor draws, for any order of the image events: the tiles that decode, in
  the order in which they finished, each below the ones drawn before it.
\<close>

lemma draws_follow_completion_order:
  fixes h shots width th xs
  defines "st \<equiv> stitch_events h shots width (stitch_start width th) xs"
  shows "map tile (draws (st_canvas st)) = filter (decodes h shots) xs"
    and "currentY st = sum_list (map dHeight (draws (st_canvas st)))"
    and "\<forall>j < length (draws (st_canvas st)).
           dy (draws (st_canvas st) ! j) = sum_list (map dHeight (take j (draws (st_canvas st))))"
proof -
  let ?st = "\<lambda>xs. stitch_events h shots width (stitch_start width th) xs"
  let ?ds = "\<lambda>xs. draws (st_canvas (?st xs))"
  have step_load: "draws (st_canvas (image_event h shots width s x))
                     = draws (st_canvas s) @ [\<lparr>tile = x, dy = currentY s, dWidth = width,
                                               dHeight = the (decode h (shots ! x))\<rparr>]
                   \<and> currentY (image_event h shots width s x)
                     = currentY s + the (decode h (shots ! x))"
    if "decodes h shots x" for s x
    using that
    by (auto simp: image_event_load img_onload_def settle_def Let_def split: sum.splits)
  have step_other: "draws (st_canvas (image_event h shots width s x)) = draws (st_canvas s)
                   \<and> currentY (image_event h shots width s x) = currentY s"
    if "\<not> decodes h shots x" for s x
    using that
    by (auto simp: image_event_def decodes_def img_onerror_def settle_def split: option.splits)
  have "map tile (?ds xs) = filter (decodes h shots) xs
      \<and> currentY (?st xs) = sum_list (map dHeight (?ds xs))
      \<and> (\<forall>j < length (?ds xs). dy (?ds xs ! j) = sum_list (map dHeight (take j (?ds xs))))"
  proof (induction xs rule: rev_induct)
    case Nil
    then show ?case by (simp add: stitch_start_def)
  next
    case (snoc x xs)
    show ?case
    proof (cases "decodes h shots x")
      case True
      from step_load [OF True, of "?st xs"] snoc True show ?thesis
        by (auto simp: stitch_events_snoc nth_append less_Suc_eq)
    next
      case False
      from step_other [OF False, of "?st xs"] snoc False show ?thesis
        by (simp add: stitch_events_snoc)
    qed
  qed
  then show "map tile (draws (st_canvas st)) = filter (decodes h shots) xs"
    and "currentY st = sum_list (map dHeight (draws (st_canvas st)))"
    and "\<forall>j < length (draws (st_canvas st)).
           dy (draws (st_canvas st) ! j) = sum_list (map dHeight (take j (draws (st_canvas st))))"
    by (simp_all add: st_def)
qed

subsection \<open>Two overlapping calls of the resource manager\<close>

lemma run_snoc: "run h (sched @ [k]) s = sched_step h (run h sched s) k"
  by (simp add: run_def)

lemma run_Cons: "run h (k # sched) s = run h sched (sched_step h s k)"
  by (simp add: run_def)

lemma run_Nil [simp]: "run h [] s = s"
  by (simp add: run_def)

lemma run_append: "run h (pre @ sched) s = run h sched (run h pre s)"
  by (simp add: run_def)

lemma waits_since_emit:
  "l \<le> length (trace w) \<Longrightarrow> waits_since l (emit e w) = waits_since l w @ sleeps [e]"
  by (simp add: waits_since_def)

lemma waits_since_flags [simp]:
  "waits_since l (w\<lparr>offscreenDocumentCreating := a\<rparr>) = waits_since l w"
  "waits_since l (w\<lparr>offscreenDocumentCreated := b\<rparr>) = waits_since l w"
  by (simp_all add: waits_since_def)

lemma provisioner_step:
  assumes "provisioner_at c g p w" and "ensure_step h p w = (p', w')" and "l \<le> length (trace w)"
  shows "provisioner_at c g p' w'" and "l \<le> length (trace w')"
    and "waits_since l w' = waits_since l w"
  using assms
  by (cases p; auto simp: ensure_catch_def waits_since_emit
                    split: sum.splits option.splits if_splits)+

lemma provisioner_enters:
  assumes "calls is_create w = c" "calls is_getContexts w = g"
    and "\<not> offscreenDocumentCreating w" "\<not> offscreenDocumentCreated w"
    and "ensure_step h Entry w = (p', w')" and "l \<le> length (trace w)"
  shows "provisioner_at c g p' w'" and "l \<le> length (trace w')"
    and "waits_since l w' = waits_since l w"
  using assms by (auto simp: waits_since_emit)

lemma provisioner_created_iff:
  "provisioner_at c g p w \<Longrightarrow> offscreenDocumentCreated w \<longleftrightarrow> p = Returned"
  by (cases p) auto

lemma provisioner_in_flight:
  "provisioner_at c g p w \<Longrightarrow> \<not> settled p \<Longrightarrow>
   offscreenDocumentCreating w \<and> \<not> offscreenDocumentCreated w"
  by (cases p) auto

lemma waiter_step:
  assumes "waiter_at n (length (waits_since l w)) q w"
    and "set (waits_since l w) \<subseteq> {100}"
    and "ensure_step h q w = (q', w')" and "l \<le> length (trace w)"
  shows "waiter_at (Suc n) (length (waits_since l w')) q' w'"
    and "set (waits_since l w') \<subseteq> {100}"
    and "l \<le> length (trace w')"
    and "calls is_create w' = calls is_create w"
    and "calls is_getContexts w' = calls is_getContexts w"
    and "offscreenDocumentCreating w' = offscreenDocumentCreating w"
    and "offscreenDocumentCreated w' = offscreenDocumentCreated w"
  using assms
  by (cases q; auto simp: sleep_def waits_since_emit split: if_splits)+

lemma waiter_enters:
  assumes "offscreenDocumentCreating w" "\<not> offscreenDocumentCreated w"
    and "waits_since l w = []"
    and "ensure_step h Entry w = (q', w')" and "l \<le> length (trace w)"
  shows "waiter_at 0 (length (waits_since l w')) q' w'"
    and "set (waits_since l w') \<subseteq> {100}"
    and "l \<le> length (trace w')"
    and "calls is_create w' = calls is_create w"
    and "calls is_getContexts w' = calls is_getContexts w"
    and "offscreenDocumentCreating w' = offscreenDocumentCreating w"
    and "offscreenDocumentCreated w' = offscreenDocumentCreated w"
  using assms by (auto simp: sleep_def waits_since_emit)

lemma waiter_unmoved:
  assumes "waiter_at n m q w" and "provisioner_at c g p w" and "ensure_step h p w = (p', w')"
  shows "waiter_at n m q w'"
  using assms
  by (cases q; cases p)
     (auto simp: ensure_catch_def split: sum.splits option.splits if_splits)

lemma provisioner_unmoved:
  assumes "provisioner_at c g p w"
    and "calls is_create w' = calls is_create w"
    and "calls is_getContexts w' = calls is_getContexts w"
    and "offscreenDocumentCreating w' = offscreenDocumentCreating w"
    and "offscreenDocumentCreated w' = offscreenDocumentCreated w"
  shows "provisioner_at c g p w'"
  using assms by (cases p) auto

lemma two_calls:
  assumes "length ps = 2"
  obtains p q where "ps = [p, q]"
  using assms by (cases ps; cases "tl ps") auto

lemma alone_step:
  assumes "provisioning_alone c g l s" and "k \<noteq> 1"
  shows "provisioning_alone c g l (sched_step h s k)"
proof -
  obtain ps w where s: "s = (ps, w)" by (cases s)
  with assms(1) have len: "length ps = 2" by (simp add: provisioning_alone_def)
  then obtain p q where ps: "ps = [p, q]" by (rule two_calls)
  from assms(1) s ps have q: "q = Entry" and l: "l \<le> length (trace w)"
    and nowait: "waits_since l w = []"
    by (simp_all add: provisioning_alone_def)
  show ?thesis
  proof (cases "k = 0")
    case False
    with assms s ps show ?thesis by (simp add: sched_step_def)
  next
    case True
    obtain p' w' where st: "ensure_step h p w = (p', w')" by (cases "ensure_step h p w")
    have "provisioner_at c g p' w' \<and> l \<le> length (trace w') \<and> waits_since l w' = waits_since l w"
    proof (cases "p = Entry")
      case True
      with assms(1) s ps st l show ?thesis
        using provisioner_enters [of w c g h p' w' l]
        by (simp add: provisioning_alone_def)
    next
      case False
      with assms(1) s ps have "provisioner_at c g p w" by (simp add: provisioning_alone_def)
      from provisioner_step [OF this st l] show ?thesis by simp
    qed
    moreover from this have "p' \<noteq> Entry" by (cases p') auto
    ultimately show ?thesis
      using True s ps q st nowait by (simp add: sched_step_def provisioning_alone_def)
  qed
qed

lemma alone_run:
  assumes "provisioning_alone c g l s" and "1 \<notin> set pre"
  shows "provisioning_alone c g l (run h pre s)"
  using assms
proof (induction pre arbitrary: s)
  case Nil
  then show ?case by simp
next
  case (Cons k pre)
  from Cons.prems have "provisioning_alone c g l (sched_step h s k)"
    by (intro alone_step) auto
  with Cons show ?case by (simp add: run_Cons)
qed

lemma alone_fresh:
  assumes "\<not> offscreenDocumentCreating w" and "\<not> offscreenDocumentCreated w"
  shows "provisioning_alone (calls is_create w) (calls is_getContexts w) (length (trace w))
           ([Entry, Entry], w)"
  using assms by (simp add: provisioning_alone_def waits_since_def)

lemma second_enters:
  assumes "provisioning_alone c g l s" and "fst s ! 0 \<noteq> Entry" and "\<not> settled (fst s ! 0)"
  shows "overlapping c g l 0 (sched_step h s 1)"
proof -
  obtain ps w where s: "s = (ps, w)" by (cases s)
  with assms(1) have len: "length ps = 2" by (simp add: provisioning_alone_def)
  then obtain p q where ps: "ps = [p, q]" by (rule two_calls)
  from assms s ps have q: "q = Entry" and l: "l \<le> length (trace w)"
    and nowait: "waits_since l w = []" and p: "provisioner_at c g p w" and fl: "\<not> settled p"
    by (simp_all add: provisioning_alone_def)
  from provisioner_in_flight [OF p fl]
  have flags: "offscreenDocumentCreating w" "\<not> offscreenDocumentCreated w" by simp_all
  obtain q' w' where st: "ensure_step h Entry w = (q', w')" by (cases "ensure_step h Entry w")
  note e = waiter_enters [OF flags nowait st l]
  from provisioner_unmoved [OF p e(4-7)] e(1-3) s ps q st show ?thesis
    by (simp add: sched_step_def overlapping_def)
qed

lemma overlapping_step:
  assumes "overlapping c g l n s"
  shows "overlapping c g l (if k = 1 then Suc n else n) (sched_step h s k)"
proof -
  obtain ps w where s: "s = (ps, w)" by (cases s)
  with assms have len: "length ps = 2" by (simp add: overlapping_def)
  then obtain p q where ps: "ps = [p, q]" by (rule two_calls)
  from assms s ps have p: "provisioner_at c g p w" and l: "l \<le> length (trace w)"
    and q: "waiter_at n (length (waits_since l w)) q w"
    and hundred: "set (waits_since l w) \<subseteq> {100}"
    by (simp_all add: overlapping_def)
  consider "k = 0" | "k = 1" | "2 \<le> k" by linarith
  then show ?thesis
  proof cases
    case 1
    obtain p' w' where st: "ensure_step h p w = (p', w')" by (cases "ensure_step h p w")
    note a = provisioner_step [OF p st l]
    from waiter_unmoved [OF q p st] a hundred 1 s ps st show ?thesis
      by (simp add: sched_step_def overlapping_def)
  next
    case 2
    obtain q' w' where st: "ensure_step h q w = (q', w')" by (cases "ensure_step h q w")
    note b = waiter_step [OF q hundred st l]
    from provisioner_unmoved [OF p b(4-7)] b(1-3) 2 s ps st show ?thesis
      by (simp add: sched_step_def overlapping_def)
  next
    case 3
    with s ps p q l hundred show ?thesis by (simp add: sched_step_def overlapping_def)
  qed
qed

lemma overlapping_run:
  assumes "overlapping c g l n s"
  shows "overlapping c g l (n + count_list sched 1) (run h sched s)"
  using assms
proof (induction sched arbitrary: n s)
  case Nil
  then show ?case by simp
next
  case (Cons k sched)
  from overlapping_step [OF Cons.prems, of k h]
  have "overlapping c g l (if k = 1 then Suc n else n) (sched_step h s k)" .
  from Cons.IH [OF this] show ?case by (cases "k = 1") (simp_all add: run_Cons)
qed

lemma polls_while_waiting:
  assumes "\<not> offscreenDocumentCreated w" and "i + k < 50"
  shows "run h (replicate k 1) ([p, Polling i], w)
           = ([p, Polling (i + k)], then_events w (replicate k (Sleep 100)))"
  using assms
proof (induction k arbitrary: i w)
  case 0
  then show ?case by (simp add: then_events_def)
next
  case (Suc k)
  from Suc.prems have step: "sched_step h ([p, Polling i], w) 1 = ([p, Polling (Suc i)], sleep 100 w)"
    by (simp add: sched_step_def)
  from Suc.prems have "\<not> offscreenDocumentCreated (sleep 100 w)" "Suc i + k < 50"
    by (simp_all add: sleep_def)
  from Suc.IH [OF this] step show ?case
    by (simp add: run_Cons sleep_def emit_then_events)
qed

lemma all_hundred: "set xs \<subseteq> {100::nat} \<Longrightarrow> xs = replicate (length xs) 100"
  by (induction xs) auto

subsection \<open>How a session ends\<close>

lemma exec_scroll_is_last:
  assumes "exec_scroll h y w = (r, w')"
  shows "last (trace w') = ExecScroll y"
    and "executeScript h (calls is_exec w' - 1) = Ran \<longrightarrow> window_scrollY (page w') = y"
  using assms
  by (auto simp: exec_scroll_def Let_def scrollToPosition_def split: injection.splits)

lemma restore_and_rethrow_is_last:
  assumes "restore_and_rethrow h y e w = (r, w')"
  shows "last (trace w') = ExecScroll y"
    and "executeScript h (calls is_exec w' - 1) = Ran \<longrightarrow> window_scrollY (page w') = y"
proof -
  obtain r0 where "exec_scroll h y w = (r0, w')"
    using assms by (auto simp: restore_and_rethrow_def split: prod.splits)
  from exec_scroll_is_last [OF this]
  show "last (trace w') = ExecScroll y"
    and "executeScript h (calls is_exec w' - 1) = Ran \<longrightarrow> window_scrollY (page w') = y"
    by blast+
qed

lemma session_ends_with_restore:
  assumes "captureFullPageWithScrolling h d w = Some (r, w')"
  shows "last (trace w') = ExecScroll (scrollY d)"
    and "executeScript h (calls is_exec w' - 1) = Ran \<longrightarrow> window_scrollY (page w') = scrollY d"
proof -
  let ?n = "numScreenshots (fullHeight d) (viewportHeight d)"
  from assms consider
      (rethrow) e w1 where "restore_and_rethrow h (scrollY d) e w1 = (r, w')"
    | (restored) w2 u where "exec_scroll h (scrollY d) w2 = (Inr u, w')"
    by (auto simp: captureFullPageWithScrolling_def Let_def
             split: option.splits prod.splits sum.splits)
  then have "last (trace w') = ExecScroll (scrollY d)
    \<and> (executeScript h (calls is_exec w' - 1) = Ran \<longrightarrow> window_scrollY (page w') = scrollY d)"
  proof cases
    case rethrow
    from restore_and_rethrow_is_last [OF this] show ?thesis by blast
  next
    case restored
    from exec_scroll_is_last [OF this] show ?thesis by blast
  qed
  then show "last (trace w') = ExecScroll (scrollY d)"
    and "executeScript h (calls is_exec w' - 1) = Ran \<longrightarrow> window_scrollY (page w') = scrollY d"
    by blast+
qed

lemma stitchScreenshots_returns:
  assumes "fires_each_once h (length shots)" and "0 < length shots"
  shows "\<exists>r. stitchScreenshots h shots width th w = Some r"
proof -
  from stitch_settles [OF assms] have "offscreen_onMessage h shots width th \<noteq> None"
    by (simp add: offscreen_onMessage_def split: promise.splits)
  then show ?thesis
    by (auto simp: stitchScreenshots_def Let_def
             split: prod.splits sum.splits delivery.splits stitch_response.splits)
qed

lemma session_settles:
  assumes vh: "0 < viewportHeight d" and tall: "viewportHeight d < fullHeight d"
    and fire: "fires_each_once h ((fullHeight d + viewportHeight d - 1) div viewportHeight d)"
  shows "\<exists>r. captureFullPageWithScrolling h d w = Some r"
proof -
  let ?N = "(fullHeight d + viewportHeight d - 1) div viewportHeight d"
  have n: "numScreenshots (fullHeight d) (viewportHeight d) = enat ?N"
    using vh by (simp add: numScreenshots_def)
  from capture_loop_returns [of h ?N "viewportHeight d" 0 "[]" w]
  obtain r1 w1 where loop: "capture_loop h (enat ?N) (viewportHeight d) 0 [] w = Some (r1, w1)"
    by auto
  show ?thesis
  proof (cases r1)
    case (Inl e)
    with loop n show ?thesis by (simp add: captureFullPageWithScrolling_def Let_def)
  next
    case (Inr shots)
    with capture_loop_completed [of h ?N "viewportHeight d" 0 "[]" w shots w1] loop
    have "map shot_index shots = [0..<?N]" by auto
    then have "length shots = ?N" by (metis length_map length_upt minus_nat.diff_0)
    with fire ceiling_div(3) [OF vh tall]
    have "fires_each_once h (length shots)" "0 < length shots" by simp_all
    from stitchScreenshots_returns [OF this]
    obtain r2 where "stitchScreenshots h shots (viewportWidth d) (fullHeight d) w1 = Some r2"
      by blast
    with loop n Inr show ?thesis
      by (auto simp: captureFullPageWithScrolling_def Let_def split: prod.splits sum.splits)
  qed
qed

subsection \<open>The cancellation signal is not read\<close>

lemma exec_scroll_ignores_signal [simp]:
  "exec_scroll (h\<lparr>cancel_signal := c\<rparr>) y w = exec_scroll h y w"
  by (simp add: exec_scroll_def)

lemma exec_probe_ignores_signal [simp]:
  "exec_probe (h\<lparr>cancel_signal := c\<rparr>) w = exec_probe h w"
  by (simp add: exec_probe_def)

lemma capture_retry_ignores_signal [simp]:
  "capture_retry (h\<lparr>cancel_signal := c\<rparr>) 0 w = capture_retry h 0 w"
  by (simp add: capture_retry_unrolled Let_def split: sum.splits)

lemma captureSingleScreenshot_ignores_signal [simp]:
  "captureSingleScreenshot (h\<lparr>cancel_signal := c\<rparr>) w = captureSingleScreenshot h w"
  by (simp add: captureSingleScreenshot_def capture_def)

lemma ensure_step_ignores_signal [simp]:
  "ensure_step (h\<lparr>cancel_signal := c\<rparr>) p w = ensure_step h p w"
  by (cases p) simp_all

lemma ensure_await_ignores_signal [simp]:
  "ensure_await (h\<lparr>cancel_signal := c\<rparr>) p w = ensure_await h p w"
proof (induction h p w rule: ensure_await.induct)
  case (1 h p w)
  let ?p = "fst (ensure_step h p w)" and ?w = "snd (ensure_step h p w)"
  show ?case
  proof (cases "settled p")
    case True
    then show ?thesis by (cases p) (simp_all add: ensure_await.simps)
  next
    case False
    then have ih: "ensure_await (h\<lparr>cancel_signal := c\<rparr>) ?p ?w = ensure_await h ?p ?w"
      using "1.IH" by (cases p) (simp_all del: ensure_step.simps)
    have "ensure_await (h\<lparr>cancel_signal := c\<rparr>) p w = ensure_await (h\<lparr>cancel_signal := c\<rparr>) ?p ?w"
      using False by (subst ensure_await.simps) (cases p; simp del: ensure_step.simps)
    moreover have "ensure_await h p w = ensure_await h ?p ?w"
      using False by (subst ensure_await.simps) (cases p; simp del: ensure_step.simps)
    ultimately show ?thesis using ih by simp
  qed
qed

lemma stitch_ignores_signal [simp]:
  "offscreen_onMessage (h\<lparr>cancel_signal := c\<rparr>) shots width th = offscreen_onMessage h shots width th"
proof -
  have "image_event (h\<lparr>cancel_signal := c\<rparr>) shots width = image_event h shots width"
    by (intro ext) (simp add: image_event_def decode_def img_onload_def Let_def
          split: option.splits sum.splits)
  then show ?thesis
    by (simp add: offscreen_onMessage_def offscreen_stitchScreenshots_def stitch_run_def
          stitch_events_def)
qed

lemma stitchScreenshots_ignores_signal [simp]:
  "stitchScreenshots (h\<lparr>cancel_signal := c\<rparr>) shots width th w = stitchScreenshots h shots width th w"
  by (simp add: stitchScreenshots_def ensureOffscreenDocument_def Let_def
        split: prod.splits sum.splits delivery.splits)

lemma capture_loop_signal_raised:
  assumes "capture_loop h n vh i shots w = Some y"
  shows "capture_loop (h\<lparr>cancel_signal := c\<rparr>) n vh i shots w = Some y"
  using assms
proof (induction h n vh i shots w y rule: capture_loop.raw_induct)
  case (1 loop h n vh i shots w y)
  show ?case
  proof (cases "enat i < n")
    case False
    with 1(2) show ?thesis by (simp add: capture_loop_done)
  next
    case True
    obtain r1 w1 where s: "exec_scroll h (i * vh) w = (r1, w1)" by (cases "exec_scroll h (i * vh) w")
    obtain r2 w2 where k: "capture_retry h 0 (sleep 500 w1) = (r2, w2)"
      by (cases "capture_retry h 0 (sleep 500 w1)")
    show ?thesis
    proof (cases r1)
      case (Inl e)
      with True s 1(2) show ?thesis
        by (simp add: capture_loop_scroll_fails [where ?w1.0 = w1])
    next
      case r1: (Inr u)
      show ?thesis
      proof (cases r2)
        case (Inl e)
        with True s r1 k 1(2) show ?thesis
          by (simp add: capture_loop_capture_fails [where ?w1.0 = w1 and ?w2.0 = w2])
      next
        case (Inr url)
        let ?shots = "shots @ [\<lparr>shot_dataUrl = url, shot_index = i, shot_scrollY = i * vh\<rparr>]"
        let ?w3 = "if enat i < n - 1 then sleep 1100 w2 else w2"
        from True s r1 k Inr 1(2) have "loop h n vh (i + 1) ?shots ?w3 = Some y"
          by simp
        moreover from "1.prems" True s r1 k Inr
        have "capture_loop h n vh (i + 1) ?shots ?w3 = Some y"
          by (simp add: capture_loop_next [where ?w1.0 = w1 and ?w2.0 = w2])
        ultimately
        have "capture_loop (h\<lparr>cancel_signal := c\<rparr>) n vh (i + 1) ?shots ?w3 = Some y"
          by (rule 1(1))
        moreover have "capture_loop (h\<lparr>cancel_signal := c\<rparr>) n vh i shots w
            = capture_loop (h\<lparr>cancel_signal := c\<rparr>) n vh (i + 1) ?shots ?w3"
          using True s r1 k Inr
          by (intro capture_loop_next [where ?w1.0 = w1 and ?w2.0 = w2 and u = u]) simp_all
        ultimately show ?thesis by simp
      qed
    qed
  qed
qed (rule assms)

lemma capture_loop_ignores_signal [simp]:
  "capture_loop (h\<lparr>cancel_signal := c\<rparr>) n vh i shots w = capture_loop h n vh i shots w"
proof (cases "capture_loop h n vh i shots w")
  case (Some y)
  from capture_loop_signal_raised [OF this] Some show ?thesis by simp
next
  case None
  show ?thesis
  proof (cases "capture_loop (h\<lparr>cancel_signal := c\<rparr>) n vh i shots w")
    case None
    with \<open>capture_loop h n vh i shots w = None\<close> show ?thesis by simp
  next
    case (Some y)
    from capture_loop_signal_raised [OF this, of "cancel_signal h"]
    have "capture_loop h n vh i shots w = Some y" by simp
    with None show ?thesis by simp
  qed
qed

subsection \<open>Evaluation on concrete browsers\<close>

lemma calm_host_fields [simp]:
  "executeScript calm_host = (\<lambda>k. Ran)"
  "captureVisibleTab calm_host = (\<lambda>k. (120, Inr (''tile'' @ show_nat k)))"
  "getContexts calm_host = (\<lambda>k. Inr 0)"
  "createDocument calm_host = (\<lambda>k. None)"
  "sendMessage calm_host = (\<lambda>k. Delivered)"
  "image_height calm_host = (\<lambda>u. Some 600)"
  "load_order calm_host = [0, 1, 2]"
  "toDataURL calm_host = (\<lambda>c. Inr ''stitched'')"
  "cancel_signal calm_host = (\<lambda>k. False)"
  by (simp_all add: calm_host_def)

lemma dims_tall_page [simp]:
  "getPageDimensions tall_page =
     \<lparr>fullHeight = 1500, viewportWidth = 800, viewportHeight = 600, scrollY = 40\<rparr>"
  by (simp add: getPageDimensions_def tall_page_def)

lemma dims_short_page [simp]:
  "getPageDimensions short_page =
     \<lparr>fullHeight = 600, viewportWidth = 800, viewportHeight = 600, scrollY = 0\<rparr>"
  by (simp add: getPageDimensions_def short_page_def)

lemma enat_minus_one [simp]: "enat n - 1 = enat (n - 1)"
  by (simp add: one_enat_def)

lemma tall_page_scrolled [simp]:
  "tall_page\<lparr>window_scrollY := 40\<rparr> = tall_page"
  "window_scrollY tall_page = 40"
  by (simp_all add: tall_page_def)

lemma numScreenshots_tall [simp]: "numScreenshots 1500 600 = enat 3"
  by (simp add: numScreenshots_def)

lemmas eval_defs = captureFullPageWithScrolling_def capture_loop.simps
  exec_scroll_def exec_probe_def capture_retry_unrolled sleep_def Let_def calls_def emit_def
  then_events_def capture_def
  stitchScreenshots_def ensureOffscreenDocument_def ensure_await.simps offscreen_onMessage_def
  offscreen_stitchScreenshots_def stitch_run_def stitch_events_def stitch_start_def image_event_def
  decode_def img_onload_def img_onerror_def settle_def scrollToPosition_def fresh_world_def
  restore_and_rethrow_def

lemma flaky_host_fields [simp]:
  "executeScript flaky_host = (\<lambda>k. Ran)"
  "captureVisibleTab flaky_host =
     (\<lambda>k. if k = 0 then (50, Inl ''rate limited'') else (120, Inr (''tile'' @ show_nat k)))"
  by (simp_all add: flaky_host_def)

lemma throttled_host_fields [simp]:
  "executeScript throttled_host = (\<lambda>k. Ran)"
  "captureVisibleTab throttled_host =
     (\<lambda>k. if k = 0 then (120, Inr ''tile0'') else (50, Inl ''rate limited''))"
  by (simp_all add: throttled_host_def)


lemma broken_tile_host_fields [simp]:
  "image_height broken_tile_host = (\<lambda>u. if u = ''broken'' then None else Some 600)"
  "load_order broken_tile_host = [3, 0, 4, 2, 1]"
  "toDataURL broken_tile_host = (\<lambda>c. Inr ''stitched'')"
  by (simp_all add: broken_tile_host_def)


lemma in_order_host_fields [simp]:
  "image_height in_order_host = (\<lambda>u. if u = ''tile1'' then Some 300 else Some 600)"
  "load_order in_order_host = [0, 1]"
  "toDataURL in_order_host = (\<lambda>c. Inr ''stitched'')"
  by (simp_all add: in_order_host_def)

lemma out_of_order_host_fields [simp]:
  "image_height out_of_order_host = (\<lambda>u. if u = ''tile1'' then Some 300 else Some 600)"
  "load_order out_of_order_host = [1, 0]"
  "toDataURL out_of_order_host = (\<lambda>c. Inr ''stitched'')"
  by (simp_all add: out_of_order_host_def)


lemma lost_tab_host_fields [simp]:
  "executeScript lost_tab_host = (\<lambda>k. if k < 2 then Ran else Rejected ''No tab with id'')"
  "captureVisibleTab lost_tab_host =
     (\<lambda>k. if k = 0 then (120, Inr ''tile0'') else (50, Inl ''rate limited''))"
  by (simp_all add: lost_tab_host_def)


lemma restore_fails_host_fields [simp]:
  "executeScript restore_fails_host = (\<lambda>k. if k = 3 then Rejected ''Frame was removed'' else Ran)"
  "captureVisibleTab restore_fails_host = (\<lambda>k. (120, Inr (''tile'' @ show_nat k)))"
  "getContexts restore_fails_host = (\<lambda>k. Inr 0)"
  "createDocument restore_fails_host = (\<lambda>k. None)"
  "sendMessage restore_fails_host = (\<lambda>k. Delivered)"
  "image_height restore_fails_host = (\<lambda>u. Some 600)"
  "load_order restore_fails_host = [0, 1, 2]"
  "toDataURL restore_fails_host = (\<lambda>c. Inr ''stitched'')"
  by (simp_all add: restore_fails_host_def)


lemma cancelling_host_fields [simp]:
  "executeScript cancelling_host = (\<lambda>k. Ran)"
  "captureVisibleTab cancelling_host = (\<lambda>k. (120, Inr (''tile'' @ show_nat k)))"
  "getContexts cancelling_host = (\<lambda>k. Inr 0)"
  "createDocument cancelling_host = (\<lambda>k. None)"
  "sendMessage cancelling_host = (\<lambda>k. Delivered)"
  "image_height cancelling_host = (\<lambda>u. Some 600)"
  "load_order cancelling_host = [0, 1, 2]"
  "toDataURL cancelling_host = (\<lambda>c. Inr ''stitched'')"
  "cancel_signal cancelling_host = (\<lambda>k. True)"
  by (simp_all add: cancelling_host_def)

lemma refusing_host_fields [simp]:
  "getContexts refusing_host = (\<lambda>k. Inr 0)"
  "createDocument refusing_host = (\<lambda>k. Some ''Offscreen API unavailable'')"
  by (simp_all add: refusing_host_def)

section \<open>The claims\<close>

subsection \<open>C1: the vertical slot of a tile\<close>

text \<open>
  C1. Two tiles of heights 600 and 300. When the images finish decoding in index order,
  tile 0 is drawn at offset 0 and tile 1 at offset 600. When the image of tile 1 finishes
  first, the compositor draws tile 1 at offset 0 and tile 0 at offset 300, and fulfils its
  promise with that canvas: each \<^verbatim>\<open>onload\<close> handler draws at the running offset
  \<^verbatim>\<open>currentY\<close> of the moment it runs, so the slot of a tile follows the completion
  order, not the index.
\<close>

theorem out_of_order_decode_moves_tiles:
  "draws (st_canvas (stitch_run in_order_host two_tiles 800 900))
     = [\<lparr>tile = 0, dy = 0, dWidth = 800, dHeight = 600\<rparr>,
        \<lparr>tile = 1, dy = 600, dWidth = 800, dHeight = 300\<rparr>]
   \<and> draws (st_canvas (stitch_run out_of_order_host two_tiles 800 900))
     = [\<lparr>tile = 1, dy = 0, dWidth = 800, dHeight = 300\<rparr>,
        \<lparr>tile = 0, dy = 300, dWidth = 800, dHeight = 600\<rparr>]
   \<and> offscreen_stitchScreenshots out_of_order_host two_tiles 800 900 = Fulfilled ''stitched''"
  by (simp add: offscreen_stitchScreenshots_def stitch_run_def stitch_events_def stitch_start_def
        image_event_def decode_def img_onload_def settle_def Let_def two_tiles_def)

subsection \<open>C2: the scroll offset after a session\<close>

text \<open>
  C2, as the code has it. A multi-tile session on a viewport of positive height, in a
  browser where every image fires its event, ends. However a session ends, in success or in
  failure, the last thing it asked of the browser is to scroll to the offset recorded at
  its start; and when that last injection ran in the page, the scroll offset of the page
  is the recorded one.
\<close>

theorem scroll_restored:
  "(0 < viewportHeight d \<and> viewportHeight d < fullHeight d
      \<and> fires_each_once h ((fullHeight d + viewportHeight d - 1) div viewportHeight d)
    \<longrightarrow> (\<exists>r w'. captureFullPageWithScrolling h d w = Some (r, w')))
   \<and> (\<forall>r w'. captureFullPageWithScrolling h d w = Some (r, w') \<longrightarrow>
         last (trace w') = ExecScroll (scrollY d)
         \<and> (executeScript h (calls is_exec w' - 1) = Ran \<longrightarrow>
              window_scrollY (page w') = scrollY d))"
proof -
  have "\<exists>r w'. captureFullPageWithScrolling h d w = Some (r, w')"
    if "0 < viewportHeight d" "viewportHeight d < fullHeight d"
       "fires_each_once h ((fullHeight d + viewportHeight d - 1) div viewportHeight d)"
    using session_settles [OF that, of w] by auto
  moreover have "last (trace w') = ExecScroll (scrollY d)
         \<and> (executeScript h (calls is_exec w' - 1) = Ran \<longrightarrow>
              window_scrollY (page w') = scrollY d)"
    if "captureFullPageWithScrolling h d w = Some (r, w')" for r w'
    using session_ends_with_restore [OF that] by blast
  ultimately show ?thesis by blast
qed


theorem scroll_restored_witness:
  "captureFullPageWithScrolling throttled_host (getPageDimensions tall_page) (fresh_world tall_page)
     \<noteq> None
   \<and> map_option (window_scrollY \<circ> page \<circ> snd)
        (captureFullPageWithScrolling throttled_host (getPageDimensions tall_page)
           (fresh_world tall_page))
     = Some (scrollY (getPageDimensions tall_page))"
proof -
  let ?d = "getPageDimensions tall_page"
  let ?s = "captureFullPageWithScrolling throttled_host ?d (fresh_world tall_page)"
  have fire: "fires_each_once throttled_host ((fullHeight ?d + viewportHeight ?d - 1) div viewportHeight ?d)"
    by (auto simp: fires_each_once_def throttled_host_def)
  have geom: "0 < viewportHeight ?d \<and> viewportHeight ?d < fullHeight ?d" by simp
  from scroll_restored [of ?d throttled_host "fresh_world tall_page"] geom fire
  obtain r w' where s: "?s = Some (r, w')" by blast
  have ran: "executeScript throttled_host (calls is_exec w' - 1) = Ran" by simp
  from scroll_restored [of ?d throttled_host "fresh_world tall_page"] s ran
  have "window_scrollY (page w') = scrollY ?d" by blast
  with s show ?thesis by simp
qed


text \<open>
  When the restoring injection is rejected, the \<^verbatim>\<open>catch\<close> block logs it and the
  page stays where the last tile left it: here at 600 instead of 40.
\<close>

theorem scroll_not_restored_counterexample:
  "scrollY (getPageDimensions tall_page) = 40
   \<and> captureFullPageWithScrolling lost_tab_host (getPageDimensions tall_page) (fresh_world tall_page)
     = Some (Inl ''rate limited'',
         \<lparr>page = tall_page\<lparr>window_scrollY := 600\<rparr>,
          trace = [ExecScroll 0, Sleep 500, CaptureVisibleTab, Sleep 1100,
                   ExecScroll 600, Sleep 500, CaptureVisibleTab, Sleep 1000, CaptureVisibleTab,
                   Sleep 2000, CaptureVisibleTab, ExecScroll 40],
          offscreenDocumentCreating = False, offscreenDocumentCreated = False\<rparr>)"
  by (simp add: eval_defs)

subsection \<open>C3: tiles, scroll offsets and capture calls of the loop\<close>

text \<open>
  C3, as the code has it. For a surface with \<open>fullHeight > viewportHeight > 0\<close>, a capture
  loop that runs to its end has set the scroll offsets \<open>0, vh, 2 * vh, ...\<close>, one per tile
  and in strictly increasing order, and has recorded \<open>N = ceil (fullHeight / vh)\<close>
  tiles, where \<open>N\<close> is the number with \<open>(N - 1) * vh < fullHeight \<le> N * vh\<close>. Every tile
  costs between one and three capture calls, so the loop makes between \<open>N\<close> and \<open>3 * N\<close>
  of them, and exactly \<open>N\<close> when no capture fails. Here \<open>es\<close> are the events of the loop.
\<close>

theorem capture_loop_tiles:
  assumes vh: "0 < vh" and tall: "vh < fh"
    and run: "capture_loop h (numScreenshots fh vh) vh 0 [] w = Some (Inr shots, w')"
    and N: "N = (fh + vh - 1) div vh"
    and es: "es = drop (length (trace w)) (trace w')"
  shows "(N - 1) * vh < fh \<and> fh \<le> N * vh
    \<and> scroll_targets es = map (\<lambda>j. j * vh) [0..<N]
    \<and> sorted_wrt (<) (scroll_targets es)
    \<and> map shot_index shots = [0..<N]
    \<and> map shot_scrollY shots = map (\<lambda>j. j * vh) [0..<N]
    \<and> N \<le> length (filter is_capture es)
    \<and> length (filter is_capture es) \<le> 3 * N
    \<and> (all_captures_succeed h \<longrightarrow> length (filter is_capture es) = N)"
proof -
  have n: "numScreenshots fh vh = enat N"
    using vh by (simp add: numScreenshots_def N)
  have "\<exists>es'. trace w' = trace w @ es'
    \<and> scroll_targets es' = map (\<lambda>j. j * vh) [0..<N]
    \<and> map shot_index shots = [0..<N]
    \<and> map shot_scrollY shots = map (\<lambda>j. j * vh) [0..<N]
    \<and> N \<le> length (filter is_capture es')
    \<and> length (filter is_capture es') \<le> 3 * N
    \<and> (all_captures_succeed h \<longrightarrow> length (filter is_capture es') = N)"
    using capture_loop_completed [OF run [unfolded n]] by simp blast
  then obtain es' where tr: "trace w' = trace w @ es'"
    and facts: "scroll_targets es' = map (\<lambda>j. j * vh) [0..<N]
    \<and> map shot_index shots = [0..<N]
    \<and> map shot_scrollY shots = map (\<lambda>j. j * vh) [0..<N]
    \<and> N \<le> length (filter is_capture es')
    \<and> length (filter is_capture es') \<le> 3 * N
    \<and> (all_captures_succeed h \<longrightarrow> length (filter is_capture es') = N)"
    by blast
  from tr have same: "es = es'" unfolding es by simp
  have ceil: "(N - 1) * vh < fh \<and> fh \<le> N * vh"
    unfolding N using ceiling_div(1,2) [OF vh tall] by simp
  have incr: "sorted_wrt (<) (scroll_targets es')"
    using facts offsets_increasing [OF vh, of N] by simp
  show ?thesis
    unfolding same using ceil incr facts by simp
qed

theorem capture_loop_tiles_witness:
  "capture_loop calm_host (numScreenshots 1500 600) 600 0 [] (fresh_world tall_page)
     = Some (Inr [\<lparr>shot_dataUrl = Some ''tile0'', shot_index = 0, shot_scrollY = 0\<rparr>,
                  \<lparr>shot_dataUrl = Some ''tile1'', shot_index = 1, shot_scrollY = 600\<rparr>,
                  \<lparr>shot_dataUrl = Some ''tile2'', shot_index = 2, shot_scrollY = 1200\<rparr>],
             \<lparr>page = tall_page\<lparr>window_scrollY := 1200\<rparr>,
              trace = [ExecScroll 0, Sleep 500, CaptureVisibleTab, Sleep 1100,
                       ExecScroll 600, Sleep 500, CaptureVisibleTab, Sleep 1100,
                       ExecScroll 1200, Sleep 500, CaptureVisibleTab],
              offscreenDocumentCreating = False, offscreenDocumentCreated = False\<rparr>)
   \<and> scroll_targets [ExecScroll 0, Sleep 500, CaptureVisibleTab, Sleep 1100,
                       ExecScroll 600, Sleep 500, CaptureVisibleTab, Sleep 1100,
                       ExecScroll 1200, Sleep 500, CaptureVisibleTab] = [0, 600, 1200]
   \<and> length (filter is_capture [ExecScroll 0, Sleep 500, CaptureVisibleTab, Sleep 1100,
                       ExecScroll 600, Sleep 500, CaptureVisibleTab, Sleep 1100,
                       ExecScroll 1200, Sleep 500, CaptureVisibleTab]) = 3"
proof -
  let ?es = "[ExecScroll 0, Sleep 500, CaptureVisibleTab, Sleep 1100,
              ExecScroll 600, Sleep 500, CaptureVisibleTab, Sleep 1100,
              ExecScroll 1200, Sleep 500, CaptureVisibleTab]"
  let ?w' = "\<lparr>page = tall_page\<lparr>window_scrollY := 1200\<rparr>, trace = ?es,
              offscreenDocumentCreating = False, offscreenDocumentCreated = False\<rparr>"
  let ?shots = "[\<lparr>shot_dataUrl = Some ''tile0'', shot_index = 0, shot_scrollY = 0\<rparr>,
                  \<lparr>shot_dataUrl = Some ''tile1'', shot_index = 1, shot_scrollY = 600\<rparr>,
                  \<lparr>shot_dataUrl = Some ''tile2'', shot_index = 2, shot_scrollY = 1200\<rparr>]"
  have vh: "(0::nat) < 600" and tall: "(600::nat) < 1500" by simp_all
  have run: "capture_loop calm_host (numScreenshots 1500 600) 600 0 [] (fresh_world tall_page)
               = Some (Inr ?shots, ?w')"
    by (simp add: eval_defs show_nat.simps digit_def)
  have N: "(3::nat) = (1500 + 600 - 1) div 600" by simp
  have es: "?es = drop (length (trace (fresh_world tall_page))) (trace ?w')"
    by (simp add: fresh_world_def)
  have ok: "all_captures_succeed calm_host" by (simp add: all_captures_succeed_def)
  from capture_loop_tiles [OF vh tall run N es] ok run show ?thesis
    by simp
qed

text \<open>
  With one failed attempt the loop over three tiles makes four capture calls.
\<close>

theorem capture_count_counterexample:
  "numScreenshots 1500 600 = enat 3
   \<and> map_option (isl \<circ> fst)
         (capture_loop flaky_host (numScreenshots 1500 600) 600 0 [] (fresh_world tall_page))
       = Some False
   \<and> map_option (calls is_capture \<circ> snd)
         (capture_loop flaky_host (numScreenshots 1500 600) 600 0 [] (fresh_world tall_page))
       = Some 4"
  by (simp add: eval_defs)

subsection \<open>C4: a page that fits its viewport\<close>

text \<open>
  C4. When the probe ran in the page and reports \<open>fullHeight \<le> viewportHeight\<close>, the handler
  asks two things of the browser and no more: the probe and one capture. There is no
  scroll, no offscreen document and no stitch request, and the page and the flags are as
  before. The handler resolves with the image of that capture, or with \<^verbatim>\<open>null\<close>
  when the capture is rejected or has not settled within 5000 ms.
\<close>

theorem single_capture_when_fits:
  assumes probe: "executeScript h (calls is_exec w) = Ran"
    and fits: "fullHeight (getPageDimensions (page w)) \<le> viewportHeight (getPageDimensions (page w))"
  shows "handleCaptureScreenshot h w
           = Some (Inr (case captureVisibleTab h (calls is_capture w) of
                          (t, Inr url) \<Rightarrow> if t < 5000 then Some url else None
                        | (t, Inl e) \<Rightarrow> None),
                   then_events w [ExecProbe, CaptureVisibleTab])"
  using assms
  by (auto simp: handleCaptureScreenshot_def capture_attempt_def exec_probe_def Let_def
        captureSingleScreenshot_def capture_def emit_then_events
        split: prod.splits sum.splits)

theorem single_capture_when_fits_witness:
  "handleCaptureScreenshot calm_host (fresh_world short_page)
     = Some (Inr (Some ''tile0''), then_events (fresh_world short_page) [ExecProbe, CaptureVisibleTab])"
proof -
  have probe: "executeScript calm_host (calls is_exec (fresh_world short_page)) = Ran" by simp
  have fits: "fullHeight (getPageDimensions (page (fresh_world short_page)))
                \<le> viewportHeight (getPageDimensions (page (fresh_world short_page)))"
    by (simp add: fresh_world_def)
  from single_capture_when_fits [OF probe fits] show ?thesis
    by (simp add: fresh_world_def calls_def show_nat.simps digit_def)
qed

subsection \<open>C5: the retry policy of one tile\<close>

text \<open>
  C5. Whenever the loop of a session reaches tile \<open>i\<close> and has scrolled to it, the capture
  is attempted at most 3 times. The first success ends the attempts: after 1, 2 or 3
  captures, with waits of 1000 ms before the second and 2000 ms before the third attempt
  (\<open>waitTime 1\<close> and \<open>waitTime 2\<close>). When all three attempts fail, the session ends in
  the \<^verbatim>\<open>catch\<close> block with the error of the third attempt.
\<close>

theorem tile_retry_policy:
  assumes reach: "capture_loop h n vh 0 [] w0 = capture_loop h n vh i shots w"
    and n: "n = numScreenshots (fullHeight d) (viewportHeight d)" and vh: "vh = viewportHeight d"
    and tile: "enat i < n"
    and scroll: "exec_scroll h (i * vh) w = (Inr u, w1)"
    and c: "c = calls is_capture w1"
  shows "maxRetries = 3 \<and> waitTime 1 = 1000 \<and> waitTime 2 = 2000
    \<and> (\<forall>url. snd (captureVisibleTab h c) = Inr url \<longrightarrow>
           capture_retry h 0 (sleep 500 w1)
             = (Inr (Some url), then_events w1 [Sleep 500, CaptureVisibleTab]))
    \<and> (\<forall>e1 url. snd (captureVisibleTab h c) = Inl e1
                \<and> snd (captureVisibleTab h (c + 1)) = Inr url \<longrightarrow>
           capture_retry h 0 (sleep 500 w1)
             = (Inr (Some url),
                then_events w1 [Sleep 500, CaptureVisibleTab, Sleep 1000, CaptureVisibleTab]))
    \<and> (\<forall>e1 e2 url. snd (captureVisibleTab h c) = Inl e1
                \<and> snd (captureVisibleTab h (c + 1)) = Inl e2
                \<and> snd (captureVisibleTab h (c + 2)) = Inr url \<longrightarrow>
           capture_retry h 0 (sleep 500 w1)
             = (Inr (Some url),
                then_events w1 [Sleep 500, CaptureVisibleTab, Sleep 1000, CaptureVisibleTab,
                                Sleep 2000, CaptureVisibleTab]))
    \<and> (\<forall>e1 e2 e3. snd (captureVisibleTab h c) = Inl e1
                \<and> snd (captureVisibleTab h (c + 1)) = Inl e2
                \<and> snd (captureVisibleTab h (c + 2)) = Inl e3 \<longrightarrow>
           captureFullPageWithScrolling h d w0
             = Some (restore_and_rethrow h (scrollY d) e3
                 (then_events w1 [Sleep 500, CaptureVisibleTab, Sleep 1000, CaptureVisibleTab,
                                  Sleep 2000, CaptureVisibleTab])))"
proof -
  have cs: "calls is_capture (sleep 500 w1) = c"
    by (simp add: c sleep_def)
  have sl: "then_events (sleep 500 w1) es = then_events w1 (Sleep 500 # es)" for es
    by (simp add: sleep_def emit_then_events)
  have policy: "maxRetries = 3 \<and> waitTime 1 = 1000 \<and> waitTime 2 = 2000"
    by (simp add: maxRetries_def waitTime_def)
  have one: "capture_retry h 0 (sleep 500 w1)
               = (Inr (Some url), then_events w1 [Sleep 500, CaptureVisibleTab])"
    if "snd (captureVisibleTab h c) = Inr url" for url
    using that by (simp add: capture_retry_unrolled cs sl)
  have two: "capture_retry h 0 (sleep 500 w1)
               = (Inr (Some url),
                  then_events w1 [Sleep 500, CaptureVisibleTab, Sleep 1000, CaptureVisibleTab])"
    if "snd (captureVisibleTab h c) = Inl e1" "snd (captureVisibleTab h (c + 1)) = Inr url"
    for e1 url
    using that by (simp add: capture_retry_unrolled cs sl)
  have three: "capture_retry h 0 (sleep 500 w1)
               = (Inr (Some url),
                  then_events w1 [Sleep 500, CaptureVisibleTab, Sleep 1000, CaptureVisibleTab,
                                  Sleep 2000, CaptureVisibleTab])"
    if "snd (captureVisibleTab h c) = Inl e1" "snd (captureVisibleTab h (c + 1)) = Inl e2"
       "snd (captureVisibleTab h (c + 2)) = Inr url"
    for e1 e2 url
    using that by (simp add: capture_retry_unrolled cs sl)
  have none: "captureFullPageWithScrolling h d w0
             = Some (restore_and_rethrow h (scrollY d) e3
                 (then_events w1 [Sleep 500, CaptureVisibleTab, Sleep 1000, CaptureVisibleTab,
                                  Sleep 2000, CaptureVisibleTab]))"
    if f: "snd (captureVisibleTab h c) = Inl e1" "snd (captureVisibleTab h (c + 1)) = Inl e2"
       "snd (captureVisibleTab h (c + 2)) = Inl e3"
    for e1 e2 e3
  proof -
    have "capture_retry h 0 (sleep 500 w1)
            = (Inl e3, then_events w1 [Sleep 500, CaptureVisibleTab, Sleep 1000, CaptureVisibleTab,
                                       Sleep 2000, CaptureVisibleTab])"
      using f by (simp add: capture_retry_unrolled cs sl)
    with tile scroll have "capture_loop h n vh i shots w
            = Some (Inl e3, then_events w1 [Sleep 500, CaptureVisibleTab, Sleep 1000,
                                            CaptureVisibleTab, Sleep 2000, CaptureVisibleTab])"
      by (rule capture_loop_capture_fails)
    with reach show ?thesis
      unfolding n vh by (simp add: session_aborts_with_loop_error)
  qed
  from policy one two three none show ?thesis by blast
qed

theorem tile_retry_policy_witness:
  "captureFullPageWithScrolling throttled_host (getPageDimensions tall_page) (fresh_world tall_page)
     = Some (Inl ''rate limited'',
         \<lparr>page = tall_page,
          trace = [ExecScroll 0, Sleep 500, CaptureVisibleTab, Sleep 1100,
                   ExecScroll 600, Sleep 500, CaptureVisibleTab, Sleep 1000, CaptureVisibleTab,
                   Sleep 2000, CaptureVisibleTab, ExecScroll 40],
          offscreenDocumentCreating = False, offscreenDocumentCreated = False\<rparr>)"
proof -
  let ?d = "getPageDimensions tall_page"
  let ?w = "\<lparr>page = tall_page\<lparr>window_scrollY := 0\<rparr>,
             trace = [ExecScroll 0, Sleep 500, CaptureVisibleTab, Sleep 1100],
             offscreenDocumentCreating = False, offscreenDocumentCreated = False\<rparr>"
  let ?w1 = "\<lparr>page = tall_page\<lparr>window_scrollY := 600\<rparr>,
             trace = [ExecScroll 0, Sleep 500, CaptureVisibleTab, Sleep 1100, ExecScroll 600],
             offscreenDocumentCreating = False, offscreenDocumentCreated = False\<rparr>"
  let ?shots = "[\<lparr>shot_dataUrl = Some ''tile0'', shot_index = 0, shot_scrollY = 0\<rparr>]"
  have reach: "capture_loop throttled_host (enat 3) 600 0 [] (fresh_world tall_page)
                 = capture_loop throttled_host (enat 3) 600 1 ?shots ?w"
    by (simp add: eval_defs)
  have n: "enat 3 = numScreenshots (fullHeight ?d) (viewportHeight ?d)" by simp
  have vh: "600 = viewportHeight ?d" by simp
  have tile: "enat 1 < enat 3" by simp
  have scroll: "exec_scroll throttled_host (1 * 600) ?w = (Inr (), ?w1)"
    by (simp add: eval_defs)
  have c: "1 = calls is_capture ?w1" by (simp add: calls_def)
  from tile_retry_policy [OF reach n vh tile scroll c]
  have "captureFullPageWithScrolling throttled_host ?d (fresh_world tall_page)
          = Some (restore_and_rethrow throttled_host (scrollY ?d) ''rate limited''
               (then_events ?w1 [Sleep 500, CaptureVisibleTab, Sleep 1000, CaptureVisibleTab,
                                 Sleep 2000, CaptureVisibleTab]))"
    by simp
  then show ?thesis by (simp add: eval_defs)
qed

subsection \<open>C6: two overlapping calls of the resource manager\<close>

text \<open>
  C6, as the code has it. Two calls start on fresh flags. Call 0 enters first and is resumed
  as in \<open>pre\<close>; call 1 enters while call 0 is in flight, be it awaiting
  \<^verbatim>\<open>getContexts\<close> or \<^verbatim>\<open>createDocument\<close>, and from then on the two are resumed
  in any order \<open>sched\<close>. Then:
  \<^item> \<^verbatim>\<open>createDocument\<close> is called at most once and \<^verbatim>\<open>getContexts\<close> exactly once,
    and call 1 never provisions: it is never at an \<^verbatim>\<open>await\<close> of either;
  \<^item> the waits \<open>ws\<close> of call 1 are of 100 ms each, at least one and at most 50 of them,
    5000 ms in all at most;
  \<^item> call 1 returns only when the flag \<^verbatim>\<open>offscreenDocumentCreated\<close> is set, and then
    call 0 has returned as well; once call 0 has returned, a call 1 that still waits
    returns at its next resumption;
  \<^item> the only error of call 1 is the timeout, thrown at its 50th resumption after waits of
    5000 ms, and after 50 resumptions call 1 has settled;
  \<^item> when call 0 has thrown, call 1 is not told: it cannot return, and after 50
    resumptions it has thrown the timeout.
\<close>

theorem single_flight:
  assumes fresh: "\<not> offscreenDocumentCreating w" "\<not> offscreenDocumentCreated w"
    and later: "1 \<notin> set pre"
    and inflight: "in_flight (fst (run h pre ([Entry, Entry], w)) ! 0)"
    and run: "run h (pre @ 1 # sched) ([Entry, Entry], w) = (ps, w')"
    and ws: "ws = waits_since (length (trace w)) w'"
  shows "calls is_create w' \<le> calls is_create w + 1
    \<and> calls is_getContexts w' = calls is_getContexts w + 1
    \<and> ps ! 1 \<noteq> Entry \<and> (\<forall>k. ps ! 1 \<noteq> AwaitContexts k \<and> ps ! 1 \<noteq> AwaitCreate k)
    \<and> ws = replicate (length ws) 100 \<and> 1 \<le> length ws \<and> length ws \<le> 50
    \<and> sum_list ws \<le> 5000
    \<and> (ps ! 1 = Returned \<longrightarrow> ps ! 0 = Returned \<and> offscreenDocumentCreated w')
    \<and> (\<forall>e. ps ! 1 = Thrown e \<longrightarrow>
           e = ''Timeout waiting for offscreen document creation''
           \<and> 50 \<le> count_list sched 1 \<and> sum_list ws = 5000)
    \<and> (50 \<le> count_list sched 1 \<longrightarrow> settled (ps ! 1))
    \<and> (ps ! 0 = Returned \<longrightarrow>
          (\<forall>i. ps ! 1 = Polling i \<longrightarrow> fst (sched_step h (ps, w') 1) ! 1 = Returned))
    \<and> (\<forall>e. ps ! 0 = Thrown e \<longrightarrow>
          ps ! 1 \<noteq> Returned
          \<and> (50 \<le> count_list sched 1 \<longrightarrow>
               ps ! 1 = Thrown ''Timeout waiting for offscreen document creation''))"
proof -
  let ?c = "calls is_create w" and ?g = "calls is_getContexts w" and ?l = "length (trace w)"
  let ?s1 = "run h pre ([Entry, Entry], w)"
  have alone: "provisioning_alone ?c ?g ?l ?s1"
    using alone_fresh [OF fresh] later by (rule alone_run)
  from inflight have "fst ?s1 ! 0 \<noteq> Entry" "\<not> settled (fst ?s1 ! 0)"
    by (simp_all add: in_flight_def)
  with alone have "overlapping ?c ?g ?l 0 (sched_step h ?s1 1)" by (rule second_enters)
  from overlapping_run [OF this, of sched h] run
  have inv: "overlapping ?c ?g ?l (count_list sched 1) (ps, w')"
    by (simp add: run_append run_Cons)
  then have len: "length ps = 2"
    and p: "provisioner_at ?c ?g (ps ! 0) w'"
    and q: "waiter_at (count_list sched 1) (length ws) (ps ! 1) w'"
    and hundred: "set ws \<subseteq> {100}"
    by (simp_all add: overlapping_def ws)
  from len obtain p0 q0 where ps: "ps = [p0, q0]" by (rule two_calls)
  from p have one: "calls is_create w' \<le> ?c + 1" and asked: "calls is_getContexts w' = ?g + 1"
    by (cases "ps ! 0"; simp)+
  from q have never: "ps ! 1 \<noteq> Entry \<and> (\<forall>k. ps ! 1 \<noteq> AwaitContexts k \<and> ps ! 1 \<noteq> AwaitCreate k)"
    by (cases "ps ! 1") auto
  from hundred have rep: "ws = replicate (length ws) 100" by (rule all_hundred)
  from q have bounds: "1 \<le> length ws \<and> length ws \<le> 50" by (cases "ps ! 1") auto
  have total: "sum_list ws = length ws * 100"
    by (subst rep) (simp add: sum_list_replicate)
  with bounds have five: "sum_list ws \<le> 5000" by simp
  from q provisioner_created_iff [OF p]
  have ok: "ps ! 1 = Returned \<longrightarrow> ps ! 0 = Returned \<and> offscreenDocumentCreated w'"
    by auto
  from q total have timeout: "\<forall>e. ps ! 1 = Thrown e \<longrightarrow>
           e = ''Timeout waiting for offscreen document creation''
           \<and> 50 \<le> count_list sched 1 \<and> sum_list ws = 5000"
    by auto
  from q have bound: "50 \<le> count_list sched 1 \<longrightarrow> settled (ps ! 1)"
    by (cases "ps ! 1") auto
  from p ps have wake: "ps ! 0 = Returned \<longrightarrow>
          (\<forall>i. ps ! 1 = Polling i \<longrightarrow> fst (sched_step h (ps, w') 1) ! 1 = Returned)"
    by (auto simp: sched_step_def)
  from p q have failed: "\<forall>e. ps ! 0 = Thrown e \<longrightarrow>
          ps ! 1 \<noteq> Returned
          \<and> (50 \<le> count_list sched 1 \<longrightarrow>
               ps ! 1 = Thrown ''Timeout waiting for offscreen document creation'')"
    by (cases "ps ! 1") auto
  from one asked never rep bounds five ok timeout bound wake failed show ?thesis
    by blast
qed


theorem single_flight_witness:
  "fst (run calm_host [0, 0, 1, 1, 0, 1] ([Entry, Entry], fresh_world tall_page))
     = [Returned, Returned]
   \<and> waits_since 0 (snd (run calm_host [0, 0, 1, 1, 0, 1] ([Entry, Entry], fresh_world tall_page)))
     = [100, 100]
   \<and> calls is_create (snd (run calm_host [0, 0, 1, 1, 0, 1] ([Entry, Entry], fresh_world tall_page)))
     = 1"
proof -
  let ?w = "fresh_world tall_page"
  let ?s = "run calm_host ([0, 0] @ 1 # [1, 0, 1]) ([Entry, Entry], ?w)"
  have fresh: "\<not> offscreenDocumentCreating ?w" "\<not> offscreenDocumentCreated ?w"
    by (simp_all add: fresh_world_def)
  have later: "1 \<notin> set [0, 0::nat]" by simp
  have inflight: "in_flight (fst (run calm_host [0, 0] ([Entry, Entry], ?w)) ! 0)"
    by (simp add: run_def sched_step_def in_flight_def emit_def fresh_world_def calls_def)
  have run: "?s = (fst ?s, snd ?s)" by simp
  have ws: "waits_since 0 (snd ?s) = waits_since (length (trace ?w)) (snd ?s)"
    by (simp add: fresh_world_def)
  have q: "fst ?s ! 1 = Returned" and len: "length (fst ?s) = 2"
    and made: "1 \<le> calls is_create (snd ?s)"
    and slept: "length (waits_since 0 (snd ?s)) = 2"
    by (simp_all add: run_def sched_step_def sleep_def emit_def fresh_world_def calls_def
          waits_since_def)
  from single_flight [OF fresh later inflight run ws] q
  have "calls is_create (snd ?s) \<le> calls is_create ?w + 1"
    and "fst ?s ! 0 = Returned"
    and "waits_since 0 (snd ?s) = replicate (length (waits_since 0 (snd ?s))) 100"
    by blast+
  with q made len slept show ?thesis
    by (cases "fst ?s"; cases "tl (fst ?s)")
       (auto simp: fresh_world_def calls_def numeral_2_eq_2)
qed


text \<open>
  The two calls need not observe the same state, also when the attempt is over long
  before the 5 seconds are: here \<^verbatim>\<open>createDocument\<close> is refused at once, call 0 throws
  the error of the browser, and call 1 waits 50 times and throws the timeout.
\<close>

theorem same_state_counterexample:
  "fst (run refusing_host ([0, 1, 0, 0] @ replicate 49 1 @ [1]) ([Entry, Entry], fresh_world tall_page))
     = [Thrown ''Offscreen API unavailable'',
        Thrown ''Timeout waiting for offscreen document creation'']"
proof -
  let ?w4 = "then_events (fresh_world tall_page) [GetContexts, Sleep 100, CreateDocument]"
  have start: "run refusing_host [0, 1, 0, 0] ([Entry, Entry], fresh_world tall_page)
                 = ([Thrown ''Offscreen API unavailable'', Polling 0], ?w4)"
    by (simp add: run_def sched_step_def sleep_def emit_def then_events_def fresh_world_def
          calls_def ensure_catch_def)
  have polls: "run refusing_host (replicate 49 1)
                 ([Thrown ''Offscreen API unavailable'', Polling 0], ?w4)
               = ([Thrown ''Offscreen API unavailable'', Polling 49],
                  then_events ?w4 (replicate 49 (Sleep 100)))"
    using polls_while_waiting [of ?w4 0 49 refusing_host "Thrown ''Offscreen API unavailable''"]
    by (simp add: fresh_world_def)
  have split: "run refusing_host ([0, 1, 0, 0] @ replicate 49 1 @ [1]) s
                = run refusing_host [1] (run refusing_host (replicate 49 1) (run refusing_host [0, 1, 0, 0] s))"
    for s by (simp add: run_def)
  show ?thesis
    unfolding split start polls
    by (simp add: run_def sched_step_def fresh_world_def)
qed

subsection \<open>C7: a failure of the restoring scroll\<close>

text \<open>
  C7. Three tiles are captured and stitched into the image \<^verbatim>\<open>stitched\<close>; then the
  restoring scroll of line 251, which stands inside the \<^verbatim>\<open>try\<close> block, is rejected.
  The \<^verbatim>\<open>catch\<close> block scrolls again and rethrows: the session fails with the error
  of the restoring scroll and the image is lost.
\<close>

theorem restore_failure_loses_image:
  "captureFullPageWithScrolling restore_fails_host (getPageDimensions tall_page)
     (fresh_world tall_page)
     = Some (Inl ''Frame was removed'',
         \<lparr>page = tall_page,
          trace = [ExecScroll 0, Sleep 500, CaptureVisibleTab, Sleep 1100,
                   ExecScroll 600, Sleep 500, CaptureVisibleTab, Sleep 1100,
                   ExecScroll 1200, Sleep 500, CaptureVisibleTab,
                   GetContexts, CreateDocument, SendStitch, ExecScroll 40, ExecScroll 40],
          offscreenDocumentCreating = False, offscreenDocumentCreated = True\<rparr>)"
  by (simp add: eval_defs)

subsection \<open>C8: a tile that does not decode\<close>

text \<open>
  C8. When every image fires its event and the image of some tile \<open>k\<close> does not decode, the
  promise of the compositor is rejected with \<^verbatim>\<open>Failed to load screenshot j\<close> for a
  tile \<open>j\<close> that did not decode (the first to fire its error event), which is \<open>k\<close> when
  \<open>k\<close> is the only such tile. The offscreen listener answers with that failure, and the
  worker's \<^verbatim>\<open>stitchScreenshots\<close> never returns an image: whatever it returns is an
  error.
\<close>

theorem decode_failure_fails_composition:
  assumes fire: "fires_each_once h (length shots)"
    and bad: "decode_fails h shots k"
  shows "\<exists>j. decode_fails h shots j
           \<and> ((\<forall>i. decode_fails h shots i \<longrightarrow> i = k) \<longrightarrow> j = k)
           \<and> offscreen_stitchScreenshots h shots width th
                = RejectedWith (''Failed to load screenshot '' @ show_nat j)
           \<and> offscreen_onMessage h shots width th
                = Some (StitchFailed (''Failed to load screenshot '' @ show_nat j))
           \<and> (\<forall>w r w'. stitchScreenshots h shots width th w = Some (r, w') \<longrightarrow> isl r)"
proof -
  from bad have "k < length shots" by (simp add: decode_fails_def)
  with fires_each_onceD(2) [OF fire] have "k \<in> set (load_order h)" by simp
  with bad have "find (decode_fails h shots) (load_order h) \<noteq> None"
    by (auto simp: find_None_iff)
  then obtain j where j: "find (decode_fails h shots) (load_order h) = Some j" by blast
  then have bad_j: "decode_fails h shots j" by (auto simp: find_Some_iff)
  from first_failure_rejects [OF fires_each_onceD(1) [OF fire] j]
  have rej: "offscreen_stitchScreenshots h shots width th
               = RejectedWith (''Failed to load screenshot '' @ show_nat j)"
    by (simp add: offscreen_stitchScreenshots_def stitch_run_def)
  then have msg: "offscreen_onMessage h shots width th
               = Some (StitchFailed (''Failed to load screenshot '' @ show_nat j))"
    by (simp add: offscreen_onMessage_def)
  have "isl r" if "stitchScreenshots h shots width th w = Some (r, w')" for w r w'
    using that
    by (auto simp: stitchScreenshots_def msg Let_def split: prod.splits sum.splits delivery.splits)
  with bad_j rej msg show ?thesis by blast
qed


theorem decode_failure_fails_composition_witness:
  "offscreen_stitchScreenshots broken_tile_host five_tiles 800 3000
     = RejectedWith ''Failed to load screenshot 2''"
proof -
  have fire: "fires_each_once broken_tile_host (length five_tiles)"
    by (auto simp: fires_each_once_def five_tiles_def)
  have bad: "decode_fails broken_tile_host five_tiles 2"
    by (simp add: decode_fails_def five_tiles_def decode_def)
  have only: "i = 2" if "decode_fails broken_tile_host five_tiles i" for i
    using that
    by (auto simp: decode_fails_def five_tiles_def decode_def less_Suc_eq numeral_eq_Suc
             split: if_splits)
  from decode_failure_fails_composition [OF fire bad, of 800 3000] only
  show ?thesis by (auto simp: show_nat.simps digit_def)
qed

subsection \<open>C9: cancellation\<close>

text \<open>
  C9, as the code has it. The worker takes no cancellation signal: whatever signal is
  raised, and whenever, the session, the handler and the response to the message are the
  same as without it.
\<close>

theorem cancellation_not_supported:
  "captureFullPageWithScrolling (h\<lparr>cancel_signal := c\<rparr>) d w = captureFullPageWithScrolling h d w
   \<and> handleCaptureScreenshot (h\<lparr>cancel_signal := c\<rparr>) w = handleCaptureScreenshot h w
   \<and> onMessage_captureScreenshot (h\<lparr>cancel_signal := c\<rparr>) w = onMessage_captureScreenshot h w"
proof -
  have restore: "restore_and_rethrow (h\<lparr>cancel_signal := c\<rparr>) y e v = restore_and_rethrow h y e v"
    for y e v by (simp add: restore_and_rethrow_def)
  have session: "captureFullPageWithScrolling (h\<lparr>cancel_signal := c\<rparr>) d' v
                   = captureFullPageWithScrolling h d' v" for d' v
    by (simp add: captureFullPageWithScrolling_def restore Let_def
          split: option.splits prod.splits sum.splits)
  then have attempt: "capture_attempt (h\<lparr>cancel_signal := c\<rparr>) w = capture_attempt h w"
    by (simp add: capture_attempt_def split: prod.splits sum.splits option.splits)
  then have handler: "handleCaptureScreenshot (h\<lparr>cancel_signal := c\<rparr>) w = handleCaptureScreenshot h w"
    by (simp add: handleCaptureScreenshot_def)
  then have "onMessage_captureScreenshot (h\<lparr>cancel_signal := c\<rparr>) w = onMessage_captureScreenshot h w"
    by (simp add: onMessage_captureScreenshot_def)
  with session handler show ?thesis by simp
qed


text \<open>
  With the signal raised from the start, the session over three tiles captures all three
  and returns the stitched image.
\<close>

theorem cancel_signal_counterexample:
  "cancel_signal cancelling_host 0 \<and> cancel_signal cancelling_host 1
   \<and> captureFullPageWithScrolling cancelling_host
        (getPageDimensions tall_page) (fresh_world tall_page)
     = Some (Inr ''stitched'',
         \<lparr>page = tall_page,
          trace = [ExecScroll 0, Sleep 500, CaptureVisibleTab, Sleep 1100,
                   ExecScroll 600, Sleep 500, CaptureVisibleTab, Sleep 1100,
                   ExecScroll 1200, Sleep 500, CaptureVisibleTab,
                   GetContexts, CreateDocument, SendStitch, ExecScroll 40],
          offscreenDocumentCreating = False, offscreenDocumentCreated = True\<rparr>)"
  by (simp add: eval_defs)

subsection \<open>C10: the handler never rejects\<close>

text \<open>
  C10. The promise of \<^verbatim>\<open>handleCaptureScreenshot\<close> is never rejected: what it settles
  with is a value. The response to a \<^verbatim>\<open>captureScreenshot\<close> message therefore has
  \<^verbatim>\<open>success: true\<close> and no \<^verbatim>\<open>error\<close> field, and when anything in the capture
  pipeline failed its \<^verbatim>\<open>dataUrl\<close> is \<^verbatim>\<open>null\<close>. A response is sent whenever
  the viewport has a positive height and every image of a stitch request fires its event.
\<close>

theorem handler_never_rejects:
  "(\<forall>r w'. handleCaptureScreenshot h w = Some (r, w') \<longrightarrow> (\<exists>result. r = Inr result))
   \<and> (\<forall>resp. onMessage_captureScreenshot h w = Some resp \<longrightarrow>
          success resp \<and> error resp = None)
   \<and> (\<forall>e w'. capture_attempt h w = Some (Inl e, w') \<longrightarrow>
          onMessage_captureScreenshot h w = Some \<lparr>success = True, dataUrl = None, error = None\<rparr>)
   \<and> (0 < innerHeight (page w)
        \<and> fires_each_once h ((fullHeight (getPageDimensions (page w)) + innerHeight (page w) - 1)
                                div innerHeight (page w))
       \<longrightarrow> onMessage_captureScreenshot h w \<noteq> None)"
proof -
  have never: "\<exists>result. r = Inr result" if "handleCaptureScreenshot h w = Some (r, w')" for r w'
    using that
    by (auto simp: handleCaptureScreenshot_def split: option.splits prod.splits sum.splits)
  have ok: "success resp \<and> error resp = None"
    if "onMessage_captureScreenshot h w = Some resp" for resp
    using that never
    by (auto simp: onMessage_captureScreenshot_def split: option.splits prod.splits sum.splits)
  have null: "onMessage_captureScreenshot h w = Some \<lparr>success = True, dataUrl = None, error = None\<rparr>"
    if "capture_attempt h w = Some (Inl e, w')" for e w'
    using that by (simp add: onMessage_captureScreenshot_def handleCaptureScreenshot_def)
  have live: "onMessage_captureScreenshot h w \<noteq> None"
    if vh: "0 < innerHeight (page w)"
      and fire: "fires_each_once h ((fullHeight (getPageDimensions (page w)) + innerHeight (page w) - 1)
                                div innerHeight (page w))"
  proof -
    let ?d = "getPageDimensions (page w)"
    have vhd: "viewportHeight ?d = innerHeight (page w)" by (simp add: getPageDimensions_def)
    have "\<exists>r. capture_attempt h w = Some r"
    proof (cases "executeScript h (calls is_exec w) = Ran \<and> viewportHeight ?d < fullHeight ?d")
      case True
      with vh fire vhd session_settles [of ?d h "emit ExecProbe w"]
      show ?thesis by (auto simp: capture_attempt_def exec_probe_def Let_def)
    next
      case False
      then show ?thesis
        by (auto simp: capture_attempt_def exec_probe_def Let_def split: injection.splits)
    qed
    then show ?thesis
      by (auto simp: onMessage_captureScreenshot_def handleCaptureScreenshot_def
               split: option.splits prod.splits sum.splits)
  qed
  from never ok null live show ?thesis by blast
qed

theorem handler_never_rejects_witness:
  "onMessage_captureScreenshot throttled_host (fresh_world tall_page)
     = Some \<lparr>success = True, dataUrl = None, error = None\<rparr>"
proof -
  let ?w = "fresh_world tall_page"
  have att: "capture_attempt throttled_host ?w
     = Some (Inl ''rate limited'',
         \<lparr>page = tall_page,
          trace = [ExecProbe, ExecScroll 0, Sleep 500, CaptureVisibleTab, Sleep 1100,
                   ExecScroll 600, Sleep 500, CaptureVisibleTab, Sleep 1000, CaptureVisibleTab,
                   Sleep 2000, CaptureVisibleTab, ExecScroll 40],
          offscreenDocumentCreating = False, offscreenDocumentCreated = False\<rparr>)"
    by (simp add: capture_attempt_def eval_defs)
  from handler_never_rejects [of throttled_host ?w] att show ?thesis by blast
qed

end
